theory Spec2Isabelle
  imports Main "HOL-Library.Word"
begin

unbundle bit_operations_syntax

section \<open>Vector addition with a Triton kernel (triton-vec-add.ipynb)\<close>

text \<open>
  The notebook defines a device kernel \<open>add_kernel\<close> and a host function \<open>add\<close> that
  allocates the output, checks that the tensors live on the accelerator and launches one
  kernel instance per block of \<open>BLOCK_SIZE\<close> elements.

  The embedding keeps the pointer view of the source. A tensor is a handle (data pointer,
  number of elements, stride, residency flag) into one address space of cells; the device is
  a record of the memory contents, the allocation frontier and a log of the memory accesses
  the kernel instances perform. Addresses are integers, so that a pointer plus a negative
  offset is an address too. The element type is any type with an addition: no law of
  arithmetic is assumed, so what is proved holds for floating-point addition as a function
  on values, and equality of elements stands for identity of their bits.

  Inside the kernel the program id, the block start and the offsets are 32-bit signed
  integers, as they are in Triton: they are words, products and sums wrap, and the mask and
  the pointer arithmetic read them signed. On the host, sizes are Python integers.

  The instances of a launch run in parallel on the device and \<open>add\<close> returns before they
  finish; the model runs them one after the other, and the state it returns is the state
  once all of them have finished (what the caller sees after \<open>torch.cuda.synchronize()\<close>).
  Tensors have one dimension.
\<close>

subsection \<open>Data model\<close>

type_synonym addr = int

datatype error = AssertionError | ZeroDivisionError | ValueError

text \<open>
  A tensor of one dimension: element \<open>i\<close> lives in the cell \<open>data_ptr + i * stride\<close>. The
  stride is 1 for a tensor made by \<open>torch.randn\<close> or \<open>torch.empty_like\<close>, another number
  for a view such as \<open>x[::2]\<close>.
\<close>

record tensor =
  data_ptr :: addr
  numel :: nat
  stride :: nat
  is_cuda :: bool

datatype 'a access = Load addr | Store addr 'a

text \<open>An event is a memory access tagged with the program id of the instance doing it.\<close>

type_synonym 'a event = "nat \<times> 'a access"

record 'a device =
  dram :: "addr \<Rightarrow> 'a"
  brk :: addr
  trace :: "'a event list"

text \<open>The values a tensor holds, read from memory.\<close>

definition contents :: "'a device \<Rightarrow> tensor \<Rightarrow> 'a list" where
  "contents d t = map (\<lambda>i. dram d (data_ptr t + int (i * stride t))) [0..<numel t]"

text \<open>
  \<open>x.is_contiguous()\<close> for one dimension; it is also what PyTorch calls non-overlapping and
  dense there.
\<close>

definition contiguous :: "tensor \<Rightarrow> bool" where
  "contiguous t \<longleftrightarrow> numel t < 2 \<or> stride t = 1"

text \<open>The number of cells from the first element of a tensor to its last.\<close>

definition extent :: "tensor \<Rightarrow> nat" where
  "extent t = (if numel t = 0 then 0 else (numel t - 1) * stride t + 1)"

text \<open>A tensor is allocated when its cells lie in the memory handed out so far.\<close>

definition allocated :: "'a device \<Rightarrow> tensor \<Rightarrow> bool" where
  "allocated d t \<longleftrightarrow> 0 \<le> data_ptr t \<and> data_ptr t + int (extent t) \<le> brk d"

text \<open>The events logged between an earlier and a later device state.\<close>

definition new_events :: "'a device \<Rightarrow> 'a device \<Rightarrow> 'a event list" where
  "new_events d d' = drop (length (trace d)) (trace d')"

fun is_store_at :: "addr \<Rightarrow> 'a event \<Rightarrow> bool" where
  "is_store_at a (_, Store p _) = (p = a)"
| "is_store_at a (_, Load _) = False"

subsection \<open>Library primitives used by the notebook\<close>

text \<open>
  \<open>torch.empty_like(x)\<close>: a fresh tensor of the shape and device of \<open>x\<close>, with the strides
  of \<open>x\<close> when \<open>x\<close> is non-overlapping and dense and with dense strides otherwise. Its cells
  are taken at the allocation frontier and are not initialised: they hold whatever the
  memory held.
\<close>

definition empty_like :: "tensor \<Rightarrow> 'a device \<Rightarrow> tensor \<times> 'a device" where
  "empty_like x d =
     (\<lparr>data_ptr = brk d, numel = numel x,
       stride = (if contiguous x then stride x else 1), is_cuda = is_cuda x\<rparr>,
      d\<lparr>brk := brk d + int (numel x)\<rparr>)"

text \<open>
  Creating a tensor from given values on a device (as \<open>torch.randn(n, device='cuda')\<close>
  does with random values): the cells are allocated and written by the runtime, not by a
  kernel instance, so nothing is logged.
\<close>

definition new_tensor :: "bool \<Rightarrow> 'a list \<Rightarrow> 'a device \<Rightarrow> tensor \<times> 'a device" where
  "new_tensor cuda xs d =
     (\<lparr>data_ptr = brk d, numel = length xs, stride = 1, is_cuda = cuda\<rparr>,
      d\<lparr>dram := (\<lambda>a. if brk d \<le> a \<and> a < brk d + int (length xs)
                        then xs ! nat (a - brk d) else dram d a),
        brk := brk d + int (length xs)\<rparr>)"

text \<open>\<open>triton.cdiv(x, y)\<close> is \<open>(x + y - 1) // y\<close>; Python raises on a zero divisor.\<close>

definition cdiv :: "nat \<Rightarrow> nat \<Rightarrow> error + nat" where
  "cdiv x y = (if y = 0 then Inl ZeroDivisionError else Inr ((x + y - 1) div y))"

text \<open>
  \<open>tl.arange(start, end)\<close>: the 32-bit integers from \<open>start\<close> up to \<open>end\<close>. Triton raises a
  \<open>ValueError\<close> unless \<open>start < end\<close>, both fit in 32 bits, the length \<open>end - start\<close> is a
  power of two (tested as Triton does, \<open>r & (r - 1) == 0\<close>) and the length is at most
  Triton's largest block, 1048576.
\<close>

definition tl_arange :: "nat \<Rightarrow> nat \<Rightarrow> error + 32 word list" where
  "tl_arange start end =
     (let r = end - start in
      if end \<le> start \<or> 4294967296 \<le> end \<or> r AND (r - 1) \<noteq> 0 \<or> 1048576 < r
      then Inl ValueError
      else Inr (map word_of_nat [start..<end]))"

text \<open>
  \<open>tl.load(pointers, mask=mask)\<close>: a lane whose mask is false does not access memory and
  its value is undefined (\<open>None\<close>); the other lanes read their cell.
\<close>

definition tl_load ::
  "nat \<Rightarrow> addr list \<Rightarrow> bool list \<Rightarrow> 'a device \<Rightarrow> 'a option list \<times> 'a device" where
  "tl_load pid ptrs msk d =
     (map (\<lambda>(p, m). if m then Some (dram d p) else None) (zip ptrs msk),
      d\<lparr>trace := trace d @ map (\<lambda>(p, m). (pid, Load p)) (filter snd (zip ptrs msk))\<rparr>)"

text \<open>Lane-wise addition of two blocks; a lane is defined when both operands are.\<close>

fun lane_add :: "'a::plus option \<Rightarrow> 'a option \<Rightarrow> 'a option" where
  "lane_add (Some a) (Some b) = Some (a + b)"
| "lane_add _ _ = None"

definition block_add :: "'a::plus option list \<Rightarrow> 'a option list \<Rightarrow> 'a option list" where
  "block_add xs ys = map (\<lambda>(a, b). lane_add a b) (zip xs ys)"

text \<open>
  \<open>tl.store(pointers, value, mask=mask)\<close>: a lane whose mask is false does not access
  memory; the other lanes write their value to their cell, one lane after the other. A lane
  with a true mask and an undefined value writes nothing; the kernel has no such lane, since
  it stores under the mask it loaded under.
\<close>

fun store_lane :: "nat \<Rightarrow> addr \<times> 'a option \<times> bool \<Rightarrow> 'a device \<Rightarrow> 'a device" where
  "store_lane pid (p, Some v, True) d =
     d\<lparr>dram := (dram d)(p := v), trace := trace d @ [(pid, Store p v)]\<rparr>"
| "store_lane pid (p, _, _) d = d"

definition tl_store ::
  "nat \<Rightarrow> addr list \<Rightarrow> 'a option list \<Rightarrow> bool list \<Rightarrow> 'a device \<Rightarrow> 'a device" where
  "tl_store pid ptrs vals msk d = fold (store_lane pid) (zip ptrs (zip vals msk)) d"

subsection \<open>The kernel\<close>

text \<open>
  One instance of \<open>add_kernel\<close>; \<open>pid\<close> is what \<open>tl.program_id(axis=0)\<close> returns in that
  instance, a 32-bit integer. \<open>pid * BLOCK_SIZE\<close> and the sum with the range are 32-bit
  operations and wrap. The mask compares the signed offset with \<open>n_elements\<close>, which Triton
  passes as a 32-bit or a 64-bit signed integer, whichever holds it; a pointer plus an
  offset is the cell that many cells away, the offset read signed. An error of \<open>tl.arange\<close>
  is raised by the instance that executes the call and ends it before it touches memory; a
  launch without instances executes no call and raises nothing.
\<close>

definition add_kernel ::
  "addr \<Rightarrow> addr \<Rightarrow> addr \<Rightarrow> nat \<Rightarrow> nat \<Rightarrow> nat \<Rightarrow> 'a::plus device \<Rightarrow> error + 'a device" where
  "add_kernel x_ptr y_ptr output_ptr n_elements BLOCK_SIZE pid d =
     (let block_start = (word_of_nat pid :: 32 word) * word_of_nat BLOCK_SIZE in
      case tl_arange 0 BLOCK_SIZE of
        Inl e \<Rightarrow> Inl e
      | Inr r \<Rightarrow>
          let offsets = map (\<lambda>i. block_start + i) r;
              msk = map (\<lambda>off. sint off < int n_elements) offsets;
              (x, d1) = tl_load pid (map (\<lambda>off. x_ptr + sint off) offsets) msk d;
              (y, d2) = tl_load pid (map (\<lambda>off. y_ptr + sint off) offsets) msk d1;
              output = block_add x y
          in Inr (tl_store pid (map (\<lambda>off. output_ptr + sint off) offsets) output msk d2))"

text \<open>
  \<open>kernel[grid](...)\<close>: one instance per program id below the grid size. \<open>launch_in\<close> runs
  the instances of a list of program ids one after the other, in the order of the list, and
  stops at the first that raises; \<open>launch\<close> takes the program ids of the grid in increasing
  order.
\<close>

fun launch_in ::
  "nat list \<Rightarrow> (nat \<Rightarrow> 'a device \<Rightarrow> error + 'a device) \<Rightarrow> 'a device \<Rightarrow> error option \<times> 'a device" where
  "launch_in [] kern d = (None, d)"
| "launch_in (p # ps) kern d =
     (case kern p d of Inl e \<Rightarrow> (Some e, d) | Inr d' \<Rightarrow> launch_in ps kern d')"

definition launch ::
  "nat \<Rightarrow> (nat \<Rightarrow> 'a device \<Rightarrow> error + 'a device) \<Rightarrow> 'a device \<Rightarrow> error option \<times> 'a device" where
  "launch grid kern d = launch_in [0..<grid] kern d"

subsection \<open>The host function\<close>

text \<open>
  \<open>add_with\<close> is the body of \<open>add\<close> with the literal \<open>BLOCK_SIZE=1024\<close> of the launch made
  a parameter; \<open>add\<close> itself passes 1024. The grid is the notebook's
  \<open>lambda meta: (triton.cdiv(n_elements, meta['BLOCK_SIZE']),)\<close>. A failed \<open>assert\<close> is the
  result \<open>Inl AssertionError\<close>, and an error raised in the launch is the result of the call;
  the device state at that moment is returned with it.
\<close>

definition add_with ::
  "nat \<Rightarrow> tensor \<Rightarrow> tensor \<Rightarrow> 'a::plus device \<Rightarrow> (error + tensor) \<times> 'a device" where
  "add_with BLOCK_SIZE x y d =
     (let (output, d1) = empty_like x d in
      if \<not> (is_cuda x \<and> is_cuda y \<and> is_cuda output) then (Inl AssertionError, d1)
      else
        let n_elements = numel output in
        case cdiv n_elements BLOCK_SIZE of
          Inl e \<Rightarrow> (Inl e, d1)
        | Inr grid \<Rightarrow>
            (case launch grid
                (add_kernel (data_ptr x) (data_ptr y) (data_ptr output) n_elements BLOCK_SIZE)
                d1 of
              (Some e, d2) \<Rightarrow> (Inl e, d2)
            | (None, d2) \<Rightarrow> (Inr output, d2)))"

definition add :: "tensor \<Rightarrow> tensor \<Rightarrow> 'a::plus device \<Rightarrow> (error + tensor) \<times> 'a device" where
  "add x y d = add_with 1024 x y d"

subsection \<open>Observations\<close>

text \<open>What a call of \<open>add\<close> gives its caller: the error, or the values of the returned tensor.\<close>

definition result :: "(error + tensor) \<times> 'a device \<Rightarrow> error + 'a list" where
  "result r = (case fst r of Inl e \<Rightarrow> Inl e | Inr out \<Rightarrow> Inr (contents (snd r) out))"

text \<open>The accesses of one kernel instance: none when it raises.\<close>

definition kernel_events :: "'a device \<Rightarrow> error + 'a device \<Rightarrow> 'a event list" where
  "kernel_events d r = (case r of Inl e \<Rightarrow> [] | Inr d' \<Rightarrow> new_events d d')"

text \<open>A memory with the stores of a log applied to it, in the order of the log.\<close>

fun apply_event :: "'a event \<Rightarrow> (addr \<Rightarrow> 'a) \<Rightarrow> (addr \<Rightarrow> 'a)" where
  "apply_event (_, Store p v) m = m(p := v)"
| "apply_event (_, Load _) m = m"

definition replay :: "'a event list \<Rightarrow> (addr \<Rightarrow> 'a) \<Rightarrow> (addr \<Rightarrow> 'a)" where
  "replay evs m = fold apply_event evs m"

text \<open>
  The offsets of the block of instance \<open>pid\<close> that are below \<open>n\<close>, as natural numbers: what
  the mask lets through as long as the 32-bit offsets do not wrap.
\<close>

definition lanes :: "nat \<Rightarrow> nat \<Rightarrow> nat \<Rightarrow> nat list" where
  "lanes n P pid = filter (\<lambda>off. off < n) (map (\<lambda>i. pid * P + i) [0..<P])"

text \<open>The signed 32-bit offsets of instance \<open>pid\<close>, and those of them the mask lets through.\<close>

definition soffs :: "nat \<Rightarrow> nat \<Rightarrow> int list" where
  "soffs P pid = map (\<lambda>i. sint (word_of_nat pid * word_of_nat P + word_of_nat i :: 32 word)) [0..<P]"

definition slanes :: "nat \<Rightarrow> nat \<Rightarrow> nat \<Rightarrow> int list" where
  "slanes n P pid = filter (\<lambda>s. s < int n) (soffs P pid)"

text \<open>The accesses of one instance, in the order made, when it starts in state \<open>d\<close>.\<close>

definition instance_events ::
  "addr \<Rightarrow> addr \<Rightarrow> addr \<Rightarrow> nat \<Rightarrow> nat \<Rightarrow> nat \<Rightarrow> 'a::plus device \<Rightarrow> 'a event list" where
  "instance_events xp yp q n P pid d =
     map (\<lambda>s. (pid, Load (xp + s))) (slanes n P pid) @
     map (\<lambda>s. (pid, Load (yp + s))) (slanes n P pid) @
     map (\<lambda>s. (pid, Store (q + s) (dram d (xp + s) + dram d (yp + s)))) (slanes n P pid)"

text \<open>The state one instance leaves, and the state the instances of a list leave.\<close>

definition kernel_post ::
  "addr \<Rightarrow> addr \<Rightarrow> addr \<Rightarrow> nat \<Rightarrow> nat \<Rightarrow> nat \<Rightarrow> 'a::plus device \<Rightarrow> 'a device" where
  "kernel_post xp yp q n P pid d =
     d\<lparr>dram := replay (instance_events xp yp q n P pid d) (dram d),
       trace := trace d @ instance_events xp yp q n P pid d\<rparr>"

definition launch_post ::
  "addr \<Rightarrow> addr \<Rightarrow> addr \<Rightarrow> nat \<Rightarrow> nat \<Rightarrow> nat list \<Rightarrow> 'a::plus device \<Rightarrow> 'a device" where
  "launch_post xp yp q n P pids d = fold (kernel_post xp yp q n P) pids d"

subsection \<open>Concrete tensors\<close>

text \<open>
  An empty device, on which \<open>A = [1,2,3,4,5]\<close> and \<open>B = [10,20,30,40,50]\<close> are created one
  after the other.
\<close>

definition dev0 :: "int device" where
  "dev0 = \<lparr>dram = (\<lambda>a. 0), brk = 0, trace = []\<rparr>"

definition tensA :: tensor where
  "tensA = fst (new_tensor True [1, 2, 3, 4, 5 :: int] dev0)"

definition dev1 :: "int device" where
  "dev1 = snd (new_tensor True [1, 2, 3, 4, 5 :: int] dev0)"

definition tensB :: tensor where
  "tensB = fst (new_tensor True [10, 20, 30, 40, 50 :: int] dev1)"

definition dev2 :: "int device" where
  "dev2 = snd (new_tensor True [10, 20, 30, 40, 50 :: int] dev1)"

text \<open>A third tensor, of another length, created after the first two.\<close>

definition tensC :: tensor where
  "tensC = fst (new_tensor True [100, 200, 300 :: int] dev2)"

definition dev3 :: "int device" where
  "dev3 = snd (new_tensor True [100, 200, 300 :: int] dev2)"

text \<open>The views \<open>A[::2]\<close> and \<open>B[::2]\<close>: every second element, stride 2.\<close>

definition viewA :: tensor where
  "viewA = \<lparr>data_ptr = 0, numel = 3, stride = 2, is_cuda = True\<rparr>"

definition viewB :: tensor where
  "viewB = \<lparr>data_ptr = 5, numel = 3, stride = 2, is_cuda = True\<rparr>"

text \<open>
  Two tensors of \<open>2^31 + 5\<close> elements, one after the other, on a device whose cells all
  hold 1.
\<close>

definition bigN :: nat where
  "bigN = 2147483653"

definition bigDev :: "int device" where
  "bigDev = \<lparr>dram = (\<lambda>a. 1), brk = 2 * int bigN, trace = []\<rparr>"

definition bigX :: tensor where
  "bigX = \<lparr>data_ptr = 0, numel = bigN, stride = 1, is_cuda = True\<rparr>"

definition bigY :: tensor where
  "bigY = \<lparr>data_ptr = int bigN, numel = bigN, stride = 1, is_cuda = True\<rparr>"

text \<open>The tensor \<open>add\<close> returns for them.\<close>

definition bigOut :: tensor where
  "bigOut = \<lparr>data_ptr = 2 * int bigN, numel = bigN, stride = 1, is_cuda = True\<rparr>"

section \<open>Properties\<close>

subsection \<open>One kernel instance\<close>

lemma tl_arange_ok:
  assumes "P = 2 ^ k" "k \<le> 20"
  shows "tl_arange 0 P = Inr (map word_of_nat [0..<P])"
proof -
  have "(2::nat) ^ k \<le> 2 ^ 20" using assms(2) by (intro power_increasing) simp_all
  then have le: "P \<le> 1048576" using assms(1) by simp
  have "P AND (P - 1) = take_bit k ((2::nat) ^ k)"
    unfolding assms(1) by (simp add: take_bit_eq_mask mask_eq_exp_minus_1)
  then have "P AND (P - 1) = 0" by simp
  moreover have "0 < P" using assms(1) by simp
  ultimately show ?thesis using le by (simp add: tl_arange_def)
qed

text \<open>Replaying a log.\<close>

lemma replay_Nil [simp]: "replay [] m = m"
  by (simp add: replay_def)

lemma replay_Cons [simp]: "replay (e # evs) m = replay evs (apply_event e m)"
  by (simp add: replay_def)

lemma replay_append [simp]: "replay (evs @ evs') m = replay evs' (replay evs m)"
  by (simp add: replay_def)

lemma replay_loads [simp]: "replay (map (\<lambda>s. (pid, Load (f s))) ss) m = m"
  by (induction ss) simp_all

lemma replay_no_store:
  "filter (is_store_at a) evs = [] \<Longrightarrow> replay evs m a = m a"
proof (induction evs arbitrary: m)
  case Nil
  show ?case by simp
next
  case (Cons e evs)
  obtain k acc where e: "e = (k, acc)" by (cases e)
  from Cons.prems e have rest: "filter (is_store_at a) evs = []"
    by (cases acc) (simp_all split: if_splits)
  from Cons.prems e have "apply_event e m a = m a"
    by (cases acc) (simp_all split: if_splits)
  with Cons.IH [OF rest, of "apply_event e m"] show ?case by simp
qed

lemma replay_single_store:
  "filter (is_store_at a) evs = [(k, Store a v)] \<Longrightarrow> replay evs m a = v"
proof (induction evs arbitrary: m)
  case Nil
  then show ?case by simp
next
  case (Cons e evs)
  show ?case
  proof (cases "is_store_at a e")
    case True
    with Cons.prems have e: "e = (k, Store a v)" and rest: "filter (is_store_at a) evs = []"
      by simp_all
    from replay_no_store [OF rest, of "apply_event e m"] e show ?thesis by simp
  next
    case False
    with Cons.prems have "filter (is_store_at a) evs = [(k, Store a v)]" by simp
    from Cons.IH [OF this, of "apply_event e m"] show ?thesis by simp
  qed
qed

text \<open>The stores of a block, lane by lane: what they leave in memory and in the log.\<close>

lemma fold_store_lane:
  "fold (store_lane pid) (map (\<lambda>w. (A w, if h w then Some (f w) else None, h w)) ws) d =
     d\<lparr>dram := replay (map (\<lambda>w. (pid, Store (A w) (f w))) (filter h ws)) (dram d),
       trace := trace d @ map (\<lambda>w. (pid, Store (A w) (f w))) (filter h ws)\<rparr>"
  by (induction ws arbitrary: d) simp_all

lemma tl_load_fst:
  "fst (tl_load pid (map f os) (map h os) d) = map (\<lambda>off. if h off then Some (dram d (f off)) else None) os"
  by (induction os) (simp_all add: tl_load_def)

lemma tl_load_snd:
  "snd (tl_load pid (map f os) (map h os) d) = d\<lparr>trace := trace d @ map (\<lambda>off. (pid, Load (f off))) (filter h os)\<rparr>"
proof -
  have eq: "map (\<lambda>(p, m). (pid, Load p)) (filter snd (zip (map f os) (map h os)))
        = map (\<lambda>off. (pid, Load (f off))) (filter h os)"
    by (induction os) simp_all
  show ?thesis unfolding tl_load_def snd_conv eq ..
qed

lemma block_add_map:
  "block_add (map (\<lambda>off. if h off then Some (f off) else None) os)
             (map (\<lambda>off. if h off then Some (g off) else None) os)
   = map (\<lambda>off. if h off then Some (f off + g off) else None) os"
  by (induction os) (simp_all add: block_add_def)

lemma tl_store_map:
  "tl_store pid (map f os) (map v os) (map h os) d = fold (store_lane pid) (map (\<lambda>off. (f off, v off, h off)) os) d"
proof -
  have "zip (map f os) (zip (map v os) (map h os)) = map (\<lambda>off. (f off, v off, h off)) os"
    by (induction os) simp_all
  then show ?thesis by (simp add: tl_store_def)
qed

text \<open>
  The kernel body, with the two loads and the addition carried out: an instance whose block
  size \<open>tl.arange\<close> accepts leaves the state \<open>kernel_post\<close>.
\<close>

lemma add_kernel_ok:
  assumes "tl_arange 0 P = Inr (map word_of_nat [0..<P])"
  shows "add_kernel xp yp q n P pid d = Inr (kernel_post xp yp q n P pid d)"
proof -
  define ws :: "32 word list"
    where "ws = map (\<lambda>i. word_of_nat pid * word_of_nat P + i) (map word_of_nat [0..<P])"
  define h :: "32 word \<Rightarrow> bool" where "h = (\<lambda>w. sint w < int n)"
  have ss: "map sint ws = soffs P pid"
    by (simp add: ws_def soffs_def comp_def)
  have sl: "map sint (filter h ws) = slanes n P pid"
    unfolding slanes_def ss [symmetric] h_def by (simp add: filter_map comp_def)
  have ev: "map (\<lambda>w. (pid, g (sint w))) (filter h ws) = map (\<lambda>s. (pid, g s)) (slanes n P pid)"
    for g :: "int \<Rightarrow> 'a access"
    unfolding sl [symmetric] by (simp add: comp_def)
  have "add_kernel xp yp q n P pid d =
      Inr (fold (store_lane pid)
        (map (\<lambda>w. (q + sint w,
                   if h w then Some (dram d (xp + sint w) + dram d (yp + sint w)) else None, h w)) ws)
        (d\<lparr>trace := trace d @ map (\<lambda>w. (pid, Load (xp + sint w))) (filter h ws)
                              @ map (\<lambda>w. (pid, Load (yp + sint w))) (filter h ws)\<rparr>))"
    unfolding add_kernel_def assms Let_def split_beta sum.case ws_def [symmetric]
      h_def [symmetric]
    unfolding tl_load_fst tl_load_snd
    by (simp add: block_add_map tl_store_map cong: if_cong)
  also have "\<dots> = Inr (kernel_post xp yp q n P pid d)"
    unfolding fold_store_lane kernel_post_def instance_events_def
    using ev [of "\<lambda>s. Load (xp + s)"] ev [of "\<lambda>s. Load (yp + s)"]
      ev [of "\<lambda>s. Store (q + s) (dram d (xp + s) + dram d (yp + s))"]
    by simp
  finally show ?thesis .
qed

lemma add_kernel_raises:
  "tl_arange 0 P = Inl e \<Longrightarrow> add_kernel xp yp q n P pid d = Inl e"
  by (simp add: add_kernel_def)

lemma brk_kernel_post [simp]: "brk (kernel_post xp yp q n P pid d) = brk d"
  by (simp add: kernel_post_def)

lemma trace_kernel_post:
  "trace (kernel_post xp yp q n P pid d) = trace d @ instance_events xp yp q n P pid d"
  by (simp add: kernel_post_def)

lemma replay_stores:
  "replay (map (\<lambda>s. (pid, Store (q + s) (F (q + s)))) ss) m a =
     (if a - q \<in> set ss then F a else m a)"
proof (induction ss arbitrary: m)
  case Nil
  show ?case by simp
next
  case (Cons s ss)
  have "replay (map (\<lambda>s. (pid, Store (q + s) (F (q + s)))) (s # ss)) m a =
      replay (map (\<lambda>s. (pid, Store (q + s) (F (q + s)))) ss) (m(q + s := F (q + s))) a"
    by simp
  also have "\<dots> = (if a - q \<in> set ss then F a else (m(q + s := F (q + s))) a)"
    by (rule Cons.IH)
  also have "\<dots> = (if a - q \<in> set (s # ss) then F a else m a)"
    by auto
  finally show ?case .
qed

text \<open>
  The memory an instance leaves: each cell at an unmasked offset from the output pointer
  holds the sum of the two cells at that offset from the input pointers, read before any
  store of the instance.
\<close>

lemma dram_kernel_post:
  "dram (kernel_post xp yp q n P pid d) a =
     (if a - q \<in> set (slanes n P pid) then dram d (xp + (a - q)) + dram d (yp + (a - q))
      else dram d a)"
proof -
  have "replay (instance_events xp yp q n P pid d) (dram d) a =
      replay (map (\<lambda>s. (pid, Store (q + s)
          ((\<lambda>b. dram d (xp + (b - q)) + dram d (yp + (b - q))) (q + s)))) (slanes n P pid))
        (dram d) a"
    by (simp add: instance_events_def)
  also have "\<dots> = (if a - q \<in> set (slanes n P pid)
      then dram d (xp + (a - q)) + dram d (yp + (a - q)) else dram d a)"
    by (rule replay_stores)
  finally show ?thesis by (simp add: kernel_post_def)
qed

text \<open>Signed offsets: always 32-bit integers, and the natural numbers as long as nothing wraps.\<close>

lemma soffs_range: "s \<in> set (soffs P pid) \<Longrightarrow> - 2147483648 \<le> s \<and> s < 2147483648"
proof -
  assume "s \<in> set (soffs P pid)"
  then obtain w :: "32 word" where "s = sint w" by (auto simp: soffs_def)
  with sint_ge [of w] sint_lt [of w] show ?thesis by simp
qed

lemma sint_of_nat_32: "m < 2147483648 \<Longrightarrow> sint (word_of_nat m :: 32 word) = int m"
  by (simp add: signed_of_nat signed_take_bit_int_eq_self)

lemma soffs_no_wrap:
  assumes "pid * P + P \<le> 2147483648"
  shows "soffs P pid = map (\<lambda>i. int (pid * P + i)) [0..<P]"
proof -
  have "sint (word_of_nat pid * word_of_nat P + word_of_nat i :: 32 word) = int (pid * P + i)"
    if "i < P" for i
  proof -
    have "(word_of_nat pid * word_of_nat P + word_of_nat i :: 32 word) = word_of_nat (pid * P + i)"
      by simp
    moreover have "pid * P + i < 2147483648" using that assms by simp
    ultimately show ?thesis by (simp only: sint_of_nat_32)
  qed
  then show ?thesis by (simp add: soffs_def)
qed

lemma slanes_no_wrap:
  assumes "pid * P + P \<le> 2147483648"
  shows "slanes n P pid = map int (lanes n P pid)"
  unfolding slanes_def lanes_def soffs_no_wrap [OF assms]
  by (simp add: filter_map comp_def del: of_nat_add of_nat_mult)

lemma wrap_example: "sint (word_of_nat 2097152 * word_of_nat 1024 + word_of_nat 0 :: 32 word) = - 2147483648"
  by simp

text \<open>
  The offsets of a block below \<open>n\<close>, as natural numbers; an offset below \<open>n\<close> belongs to the
  instance \<open>off div P\<close> alone.
\<close>

lemma set_lanes: "set (lanes n P pid) = {off. pid * P \<le> off \<and> off < pid * P + P \<and> off < n}"
  by (auto simp: lanes_def)

lemma filter_less_upt: "filter (\<lambda>k. k < n) [a..<b] = [a..<min b n]"
proof (induction b)
  case 0
  show ?case by simp
next
  case (Suc b)
  show ?case
  proof (cases "b < n")
    case True
    then have "min (Suc b) n = Suc b" "min b n = b" by simp_all
    with Suc True show ?thesis by simp
  next
    case False
    then have "min (Suc b) n = n" "min b n = n" by simp_all
    with Suc False show ?thesis by simp
  qed
qed

lemma lanes_upt: "lanes n P pid = [pid * P ..< min (pid * P + P) n]"
  by (simp add: lanes_def map_add_upt add.commute filter_less_upt)

lemma lane_owner:
  assumes "0 < P" "i < n"
  shows "i \<in> set (lanes n P pid) \<longleftrightarrow> pid = i div P"
proof
  assume "i \<in> set (lanes n P pid)"
  then have "P * pid \<le> i" "i < P * Suc pid" by (simp_all add: set_lanes mult.commute)
  then show "pid = i div P" by (simp add: div_nat_eqI)
next
  assume pid: "pid = i div P"
  have "(i div P) * P \<le> i" by simp
  moreover have "i < (i div P) * P + P" using assms(1)
    by (metis div_mult_mod_eq mod_less_divisor nat_add_left_cancel_less)
  ultimately show "i \<in> set (lanes n P pid)" using assms(2) pid by (simp add: set_lanes)
qed

lemma filter_eq_upt: "filter (\<lambda>k. k = i) [a..<b] = (if a \<le> i \<and> i < b then [i] else [])"
  by (induction b) auto

text \<open>The log of one instance.\<close>

lemma new_events_append: "trace d' = trace d @ evs \<Longrightarrow> new_events d d' = evs"
  by (simp add: new_events_def)

lemma new_events_kernel_post:
  "new_events d (kernel_post xp yp q n P pid d) = instance_events xp yp q n P pid d"
  by (rule new_events_append) (rule trace_kernel_post)

lemma kernel_events_ok:
  "tl_arange 0 P = Inr (map word_of_nat [0..<P]) \<Longrightarrow>
   kernel_events d (add_kernel xp yp q n P pid d) = instance_events xp yp q n P pid d"
  by (simp add: kernel_events_def add_kernel_ok new_events_kernel_post)

lemma instance_events_signed:
  assumes "e \<in> set (instance_events xp yp q n P pid d)"
  shows "\<exists>s. s \<in> set (slanes n P pid) \<and> fst e = pid \<and>
           (snd e = Load (xp + s) \<or> snd e = Load (yp + s) \<or>
            snd e = Store (q + s) (dram d (xp + s) + dram d (yp + s)))"
  using assms by (auto simp: instance_events_def)

lemma instance_events_cases:
  assumes "e \<in> set (instance_events xp yp q n P pid d)" "pid * P + P \<le> 2147483648"
  shows "\<exists>off. pid * P \<le> off \<and> off < pid * P + P \<and> off < n \<and> fst e = pid \<and>
           (snd e = Load (xp + int off) \<or> snd e = Load (yp + int off) \<or>
            (\<exists>v. snd e = Store (q + int off) v))"
proof -
  from instance_events_signed [OF assms(1)] obtain s where s: "s \<in> set (slanes n P pid)"
    and e: "fst e = pid \<and> (snd e = Load (xp + s) \<or> snd e = Load (yp + s) \<or>
            snd e = Store (q + s) (dram d (xp + s) + dram d (yp + s)))"
    by blast
  from s obtain off where off: "off \<in> set (lanes n P pid)" "s = int off"
    unfolding slanes_no_wrap [OF assms(2)] by auto
  from off(1) have "pid * P \<le> off \<and> off < pid * P + P \<and> off < n" by (simp add: set_lanes)
  with e off(2) show ?thesis by auto
qed

lemma stores_of_instance:
  assumes "pid * P + P \<le> 2147483648"
  shows "filter (is_store_at (q + int i)) (instance_events xp yp q n P pid d) =
     (if i \<in> set (lanes n P pid)
      then [(pid, Store (q + int i) (dram d (xp + int i) + dram d (yp + int i)))] else [])"
proof -
  have "filter (is_store_at (q + int i)) (instance_events xp yp q n P pid d) =
     map (\<lambda>off. (pid, Store (q + int off) (dram d (xp + int off) + dram d (yp + int off))))
       (filter (\<lambda>off. off = i) (lanes n P pid))"
    by (simp add: instance_events_def slanes_no_wrap [OF assms] filter_map comp_def)
  also have "filter (\<lambda>off. off = i) (lanes n P pid) = (if i \<in> set (lanes n P pid) then [i] else [])"
    unfolding lanes_upt filter_eq_upt by simp
  finally show ?thesis by simp
qed

subsection \<open>The launch\<close>

lemma launch_in_ok:
  assumes "tl_arange 0 P = Inr (map word_of_nat [0..<P])"
  shows "launch_in pids (add_kernel xp yp q n P) d = (None, launch_post xp yp q n P pids d)"
  by (induction pids arbitrary: d) (simp_all add: launch_post_def add_kernel_ok [OF assms])

lemma launch_in_raises:
  assumes "tl_arange 0 P = Inl e" "pids \<noteq> []"
  shows "launch_in pids (add_kernel xp yp q n P) d = (Some e, d)"
  using assms(2) by (cases pids) (simp_all add: add_kernel_raises [OF assms(1)])

lemma launch_post_Nil [simp]: "launch_post xp yp q n P [] d = d"
  by (simp add: launch_post_def)

lemma launch_post_Cons:
  "launch_post xp yp q n P (p # pids) d = launch_post xp yp q n P pids (kernel_post xp yp q n P p d)"
  by (simp add: launch_post_def)

lemma launch_post_snoc:
  "launch_post xp yp q n P (pids @ [p]) d = kernel_post xp yp q n P p (launch_post xp yp q n P pids d)"
  by (simp add: launch_post_def)

lemma brk_launch_post [simp]: "brk (launch_post xp yp q n P pids d) = brk d"
  by (induction pids arbitrary: d) (simp_all add: launch_post_Cons)

text \<open>The log only grows, and the memory is the old memory with the logged stores applied.\<close>

lemma trace_launch_post:
  "trace (launch_post xp yp q n P pids d) = trace d @ new_events d (launch_post xp yp q n P pids d)"
proof (induction pids arbitrary: d)
  case Nil
  show ?case by (simp add: new_events_def)
next
  case (Cons p pids)
  let ?d = "kernel_post xp yp q n P p d"
  from Cons.IH [of ?d] obtain evs where
    "trace (launch_post xp yp q n P (p # pids) d) = trace d @ instance_events xp yp q n P p d @ evs"
    by (simp add: launch_post_Cons trace_kernel_post)
  then show ?case by (simp add: new_events_def)
qed

lemma dram_launch_post_replay:
  "dram (launch_post xp yp q n P pids d) =
     replay (new_events d (launch_post xp yp q n P pids d)) (dram d)"
proof (induction pids arbitrary: d)
  case Nil
  show ?case by (simp add: new_events_def)
next
  case (Cons p pids)
  let ?d = "kernel_post xp yp q n P p d"
  let ?f = "launch_post xp yp q n P pids ?d"
  have "trace ?f = trace d @ instance_events xp yp q n P p d @ new_events ?d ?f"
    using trace_launch_post [of xp yp q n P pids ?d] by (simp add: trace_kernel_post)
  then have "new_events d ?f = instance_events xp yp q n P p d @ new_events ?d ?f"
    by (rule new_events_append)
  moreover have "dram ?d = replay (instance_events xp yp q n P p d) (dram d)"
    by (simp add: kernel_post_def)
  ultimately show ?case using Cons.IH [of ?d] by (simp add: launch_post_Cons)
qed

text \<open>No store goes further than a signed 32-bit offset, below \<open>n\<close>, from the output pointer.\<close>

lemma dram_kernel_post_far:
  "a - q < - 2147483648 \<or> 2147483648 \<le> a - q \<or> int n \<le> a - q \<Longrightarrow>
   dram (kernel_post xp yp q n P pid d) a = dram d a"
  using soffs_range [of "a - q" P pid] by (auto simp: dram_kernel_post slanes_def)

lemma dram_launch_post_far:
  "a - q < - 2147483648 \<or> 2147483648 \<le> a - q \<or> int n \<le> a - q \<Longrightarrow>
   dram (launch_post xp yp q n P pids d) a = dram d a"
  by (induction pids arbitrary: d) (simp_all add: launch_post_Cons dram_kernel_post_far)

text \<open>As long as no offset wraps, cells outside the output block are never changed.\<close>

lemma dram_kernel_post_outside:
  assumes "pid * P + P \<le> 2147483648" "\<not> (q \<le> a \<and> a < q + int n)"
  shows "dram (kernel_post xp yp q n P pid d) a = dram d a"
  using assms(2) by (auto simp: dram_kernel_post slanes_no_wrap [OF assms(1)] set_lanes)

lemma dram_launch_post_outside:
  assumes "\<forall>p \<in> set pids. p * P + P \<le> 2147483648" "\<not> (q \<le> a \<and> a < q + int n)"
  shows "dram (launch_post xp yp q n P pids d) a = dram d a"
  using assms(1)
  by (induction pids arbitrary: d) (simp_all add: launch_post_Cons dram_kernel_post_outside [OF _ assms(2)])

text \<open>
  With the cells read lying below the output block, every instance reads the original
  values, whatever ran before it.
\<close>

lemma dram_launch_post:
  assumes "xp + int n \<le> q" "yp + int n \<le> q" "\<forall>p \<in> set pids. p * P + P \<le> 2147483648"
  shows "dram (launch_post xp yp q n P pids d) a =
     (if \<exists>p \<in> set pids. a - q \<in> int ` set (lanes n P p)
      then dram d (xp + (a - q)) + dram d (yp + (a - q)) else dram d a)"
  using assms(3)
proof (induction pids arbitrary: d)
  case Nil
  show ?case by simp
next
  case (Cons p pids)
  let ?d = "kernel_post xp yp q n P p d"
  have p: "p * P + P \<le> 2147483648" and ps: "\<forall>p \<in> set pids. p * P + P \<le> 2147483648"
    using Cons.prems by simp_all
  have below: "dram ?d b = dram d b" if "b < q" for b
    using that by (intro dram_kernel_post_outside [OF p]) simp
  have step: "dram (launch_post xp yp q n P (p # pids) d) a =
     (if \<exists>p \<in> set pids. a - q \<in> int ` set (lanes n P p)
      then dram ?d (xp + (a - q)) + dram ?d (yp + (a - q)) else dram ?d a)"
    using Cons.IH [OF ps, of ?d] by (simp add: launch_post_Cons)
  show ?case
  proof (cases "\<exists>p \<in> set pids. a - q \<in> int ` set (lanes n P p)")
    case True
    then have "a - q < int n" by (auto simp: set_lanes)
    with assms(1,2) have "xp + (a - q) < q" "yp + (a - q) < q" by simp_all
    with True step show ?thesis by (simp add: below)
  next
    case False
    with step show ?thesis
      by (simp add: dram_kernel_post slanes_no_wrap [OF p])
  qed
qed

text \<open>
  The instances of a launch are independent: with the cells read lying below the output
  block and no offset wrapping, running them in any order (a list that holds every program
  id of the grid, in any order) leaves the memory that running them in increasing order
  leaves.
\<close>

lemma launch_order_irrelevant:
  assumes "xp + int n \<le> q" "yp + int n \<le> q" "set pids = {..<g}"
    "\<forall>p<g. p * P + P \<le> 2147483648"
  shows "dram (launch_post xp yp q n P pids d) = dram (launch_post xp yp q n P [0..<g] d)"
proof
  fix a
  have s: "set [0..<g] = {..<g}" by auto
  have b1: "\<forall>p \<in> set pids. p * P + P \<le> 2147483648" using assms(3,4) by simp
  have b2: "\<forall>p \<in> set [0..<g]. p * P + P \<le> 2147483648" using assms(4) by simp
  show "dram (launch_post xp yp q n P pids d) a = dram (launch_post xp yp q n P [0..<g] d) a"
    unfolding dram_launch_post [OF assms(1,2) b1] dram_launch_post [OF assms(1,2) b2]
    using assms(3) s by simp
qed

text \<open>The log of a launch: the logs of the instances, in order.\<close>

lemma new_events_launch_post:
  "new_events d (launch_post xp yp q n P [0..<g] (d\<lparr>brk := b\<rparr>)) =
     concat (map (\<lambda>pid. instance_events xp yp q n P pid
                     (launch_post xp yp q n P [0..<pid] (d\<lparr>brk := b\<rparr>))) [0..<g])"
proof -
  have "trace (launch_post xp yp q n P [0..<g] (d\<lparr>brk := b\<rparr>)) =
     trace d @ concat (map (\<lambda>pid. instance_events xp yp q n P pid
                     (launch_post xp yp q n P [0..<pid] (d\<lparr>brk := b\<rparr>))) [0..<g])"
    by (induction g) (simp_all add: launch_post_snoc trace_kernel_post)
  then show ?thesis by (rule new_events_append)
qed

lemma concat_single:
  "concat (map (\<lambda>p. if p = k then [f p] else []) [0..<g]) = (if k < g then [f k] else [])"
  by (induction g) auto

lemma stores_of_launch:
  assumes "0 < P" "i < n" "\<forall>p<g. p * P + P \<le> 2147483648"
  shows "filter (is_store_at (q + int i))
           (concat (map (\<lambda>pid. instance_events xp yp q n P pid (D pid)) [0..<g])) =
         (if i div P < g
          then [(i div P, Store (q + int i)
                  (dram (D (i div P)) (xp + int i) + dram (D (i div P)) (yp + int i)))]
          else [])"
proof -
  have eq: "map (\<lambda>pid. filter (is_store_at (q + int i)) (instance_events xp yp q n P pid (D pid))) [0..<g] =
        map (\<lambda>pid. if pid = i div P
            then [(pid, Store (q + int i) (dram (D pid) (xp + int i) + dram (D pid) (yp + int i)))]
            else []) [0..<g]"
    using assms(3) by (intro map_cong refl) (simp add: stores_of_instance lane_owner [OF assms(1,2)])
  have "filter (is_store_at (q + int i))
           (concat (map (\<lambda>pid. instance_events xp yp q n P pid (D pid)) [0..<g])) =
        concat (map (\<lambda>pid. filter (is_store_at (q + int i))
           (instance_events xp yp q n P pid (D pid))) [0..<g])"
    by (simp add: filter_concat comp_def)
  also have "\<dots> = concat (map (\<lambda>pid. if pid = i div P
            then [(pid, Store (q + int i) (dram (D pid) (xp + int i) + dram (D pid) (yp + int i)))]
            else []) [0..<g])"
    by (simp only: eq)
  also have "\<dots> = (if i div P < g
          then [(i div P, Store (q + int i)
                  (dram (D (i div P)) (xp + int i) + dram (D (i div P)) (yp + int i)))]
          else [])"
    by (rule concat_single)
  finally show ?thesis .
qed

text \<open>The grid \<open>cdiv n P\<close> covers every offset below \<open>n\<close>.\<close>

lemma cdiv_covers: "0 < P \<Longrightarrow> (n::nat) \<le> ((n + P - 1) div P) * P"
proof -
  assume P: "0 < P"
  have "(n + P - 1) mod P < P" using P by simp
  moreover have "n + P - 1 = ((n + P - 1) div P) * P + (n + P - 1) mod P" by simp
  ultimately show ?thesis by linarith
qed

lemma cdiv_owner: "0 < P \<Longrightarrow> i < n \<Longrightarrow> i div P < ((n::nat) + P - 1) div P"
proof -
  assume P: "0 < P" and i: "i < n"
  have "n \<le> ((n + P - 1) div P) * P" by (rule cdiv_covers [OF P])
  with i have "i < ((n + P - 1) div P) * P" by simp
  then show ?thesis using P by (simp add: less_mult_imp_div_less)
qed

lemma lanes_upt_union:
  "0 < P \<Longrightarrow> (\<exists>p \<in> set [0..<g]. k \<in> set (lanes n P p)) \<longleftrightarrow> k < g * P \<and> k < n"
proof -
  assume P: "0 < P"
  have "(\<exists>p<g. p * P \<le> k \<and> k < p * P + P) \<longleftrightarrow> k < g * P"
  proof
    assume "\<exists>p<g. p * P \<le> k \<and> k < p * P + P"
    then obtain p where p: "p < g" "k < p * P + P" by blast
    from p(1) have "Suc p * P \<le> g * P" by (intro mult_le_mono1) simp
    with p(2) show "k < g * P" by simp
  next
    assume k: "k < g * P"
    have "k div P < g" using k P by (simp add: less_mult_imp_div_less)
    moreover have "(k div P) * P \<le> k" by simp
    moreover have "k < (k div P) * P + P" using P
      by (metis div_mult_mod_eq mod_less_divisor nat_add_left_cancel_less)
    ultimately show "\<exists>p<g. p * P \<le> k \<and> k < p * P + P" by blast
  qed
  then show ?thesis by (auto simp: set_lanes)
qed

text \<open>
  With a block size that is a power of two and fewer than \<open>2^31\<close> elements, no offset of
  the grid wraps.
\<close>

lemma grid_no_wrap:
  assumes "P = 2 ^ k" "k \<le> 31" "(n::nat) < 2147483648" "p < (n + P - 1) div P"
  shows "p * P + P \<le> 2147483648"
proof -
  have P: "0 < P" using assms(1) by simp
  have e: "(2147483648::nat) = 2 ^ (31 - k) * P"
    using assms(1,2) by (simp flip: power_add)
  have "n + P - 1 < (2 ^ (31 - k) + 1) * P"
    using assms(3) P unfolding e by (simp add: algebra_simps)
  then have "(n + P - 1) div P < 2 ^ (31 - k) + 1"
    using P by (simp add: less_mult_imp_div_less)
  with assms(4) have "Suc p \<le> 2 ^ (31 - k)" by simp
  then have "Suc p * P \<le> 2 ^ (31 - k) * P" by (rule mult_le_mono1)
  then show ?thesis unfolding e [symmetric] by simp
qed

text \<open>The memory after the whole grid.\<close>

lemma dram_launch_post_grid:
  assumes "xp + int n \<le> q" "yp + int n \<le> q" "0 < P"
    "\<forall>p < (n + P - 1) div P. p * P + P \<le> 2147483648"
  shows "dram (launch_post xp yp q n P [0..<(n + P - 1) div P] d) a =
     (if q \<le> a \<and> a < q + int n then dram d (xp + (a - q)) + dram d (yp + (a - q)) else dram d a)"
proof -
  let ?g = "(n + P - 1) div P"
  have b: "\<forall>p \<in> set [0..<?g]. p * P + P \<le> 2147483648" using assms(4) by simp
  have "(\<exists>p \<in> set [0..<?g]. a - q \<in> int ` set (lanes n P p)) \<longleftrightarrow> (q \<le> a \<and> a < q + int n)"
  proof
    assume "\<exists>p \<in> set [0..<?g]. a - q \<in> int ` set (lanes n P p)"
    then obtain p off where "off \<in> set (lanes n P p)" "a - q = int off" by auto
    then have "off < n" "a = q + int off" by (simp_all add: set_lanes)
    then show "q \<le> a \<and> a < q + int n" by simp
  next
    assume a: "q \<le> a \<and> a < q + int n"
    then have n: "nat (a - q) < n" and i: "a - q = int (nat (a - q))" by linarith+
    from n cdiv_covers [OF assms(3), of n] have "nat (a - q) < ?g * P" by simp
    with n lanes_upt_union [OF assms(3), of ?g "nat (a - q)" n]
    obtain p where "p \<in> set [0..<?g]" "nat (a - q) \<in> set (lanes n P p)" by blast
    with i show "\<exists>p \<in> set [0..<?g]. a - q \<in> int ` set (lanes n P p)" by (metis imageI)
  qed
  then show ?thesis unfolding dram_launch_post [OF assms(1,2) b] by simp
qed

subsection \<open>The host function\<close>

text \<open>Contiguous tensors: element \<open>i\<close> is the cell \<open>i\<close> cells after the data pointer.\<close>

lemma contents_contiguous:
  assumes "contiguous t"
  shows "contents d t = map (\<lambda>i. dram d (data_ptr t + int i)) [0..<numel t]"
proof -
  have eq: "dram d (data_ptr t + int (i * stride t)) = dram d (data_ptr t + int i)"
    if "i < numel t" for i
  proof (cases "stride t = 1")
    case True
    then show ?thesis by simp
  next
    case False
    with assms that have "i = 0" by (auto simp: contiguous_def)
    then show ?thesis by simp
  qed
  show ?thesis
    unfolding contents_def by (intro map_cong refl) (simp add: eq del: of_nat_mult)
qed

lemma contents_nth:
  "contiguous t \<Longrightarrow> i < numel t \<Longrightarrow> contents d t ! i = dram d (data_ptr t + int i)"
  by (simp add: contents_contiguous)

lemma numel_contents: "length (contents d t) = numel t"
  by (simp add: contents_def)

lemma extent_contiguous: "contiguous t \<Longrightarrow> extent t = numel t"
  by (auto simp: contiguous_def extent_def)

lemma allocated_contiguous:
  "contiguous t \<Longrightarrow> allocated d t \<Longrightarrow> 0 \<le> data_ptr t \<and> data_ptr t + int (numel t) \<le> brk d"
  by (simp add: allocated_def extent_contiguous)

lemma contiguous_empty_like: "contiguous (fst (empty_like x d))"
  by (auto simp: empty_like_def contiguous_def)

text \<open>The outcomes of the host function.\<close>

lemma add_with_fail:
  "\<not> (is_cuda x \<and> is_cuda y) \<Longrightarrow>
   add_with P x y d = (Inl AssertionError, d\<lparr>brk := brk d + int (numel x)\<rparr>)"
  by (auto simp: add_with_def empty_like_def)

lemma add_with_ok:
  assumes "is_cuda x" "is_cuda y" "P = 2 ^ k" "k \<le> 20"
  shows "add_with P x y d =
     (Inr (fst (empty_like x d)),
      launch_post (data_ptr x) (data_ptr y) (brk d) (numel x) P [0..<(numel x + P - 1) div P]
        (d\<lparr>brk := brk d + int (numel x)\<rparr>))"
proof -
  have P: "P \<noteq> 0" using assms(3) by simp
  show ?thesis
    using assms(1,2) P
    by (simp add: add_with_def empty_like_def cdiv_def Let_def launch_def
        launch_in_ok [OF tl_arange_ok [OF assms(3,4)]])
qed

lemma add_with_raises:
  assumes "is_cuda x" "is_cuda y" "0 < P" "tl_arange 0 P = Inl e" "0 < numel x"
  shows "add_with P x y d = (Inl e, d\<lparr>brk := brk d + int (numel x)\<rparr>)"
proof -
  define g where "g = (numel x + P - 1) div P"
  have c: "cdiv (numel x) P = Inr g" using assms(3) by (simp add: g_def cdiv_def)
  have "0 < g" using assms(3,5) by (simp add: g_def div_greater_zero_iff)
  then have "[0..<g] \<noteq> []" by simp
  note r = launch_in_raises [OF assms(4) this]
  show ?thesis
    using assms(1,2) by (simp add: add_with_def empty_like_def Let_def launch_def c r)
qed

lemma add_with_empty:
  assumes "numel x = 0" "is_cuda x" "is_cuda y" "0 < P"
  shows "add_with P x y d = (Inr (fst (empty_like x d)), d)"
  using assms by (simp add: add_with_def empty_like_def cdiv_def Let_def launch_def)

text \<open>
  Whatever the outcome of \<open>add\<close>, the state it leaves is the state some instances of
  the grid leave, run in increasing order.
\<close>

lemma add_launch:
  "\<exists>g \<le> (numel x + 1024 - 1) div 1024. snd (add x y d) =
     launch_post (data_ptr x) (data_ptr y) (brk d) (numel x) 1024 [0..<g]
       (d\<lparr>brk := brk d + int (numel x)\<rparr>)"
proof (cases "is_cuda x \<and> is_cuda y")
  case True
  then have "snd (add x y d) =
     launch_post (data_ptr x) (data_ptr y) (brk d) (numel x) 1024 [0..<(numel x + 1024 - 1) div 1024]
       (d\<lparr>brk := brk d + int (numel x)\<rparr>)"
    using add_with_ok [of x y 1024 10 d] by (simp add: add_def)
  then show ?thesis by blast
next
  case False
  then have "snd (add x y d) =
     launch_post (data_ptr x) (data_ptr y) (brk d) (numel x) 1024 [0..<0]
       (d\<lparr>brk := brk d + int (numel x)\<rparr>)"
    by (simp add: add_def add_with_fail)
  then show ?thesis by blast
qed

text \<open>\<open>add\<close> on fewer than \<open>2^31\<close> elements: no offset wraps.\<close>

lemma add_no_wrap:
  assumes "numel x < 2147483648" "g \<le> (numel x + 1024 - 1) div 1024"
  shows "\<forall>p<g. p * 1024 + 1024 \<le> 2147483648"
proof (intro allI impI)
  fix p assume "p < g"
  with assms(2) have "p < (numel x + 1024 - 1) div 1024" by simp
  from grid_no_wrap [of 1024 10, OF _ _ assms(1) this] show "p * 1024 + 1024 \<le> 2147483648"
    by simp
qed

text \<open>What a call leaves outside the output block, and where it stores.\<close>

lemma add_dram_outside:
  assumes "numel x < 2147483648" "\<not> (brk d \<le> a \<and> a < brk d + int (numel x))"
  shows "dram (snd (add x y d)) a = dram d a"
proof -
  obtain g where g: "g \<le> (numel x + 1024 - 1) div 1024" and
    s: "snd (add x y d) = launch_post (data_ptr x) (data_ptr y) (brk d) (numel x) 1024 [0..<g]
        (d\<lparr>brk := brk d + int (numel x)\<rparr>)"
    using add_launch by blast
  have "\<forall>p \<in> set [0..<g]. p * 1024 + 1024 \<le> 2147483648"
    using add_no_wrap [OF assms(1) g] by simp
  then have "dram (launch_post (data_ptr x) (data_ptr y) (brk d) (numel x) 1024 [0..<g]
        (d\<lparr>brk := brk d + int (numel x)\<rparr>)) a = dram (d\<lparr>brk := brk d + int (numel x)\<rparr>) a"
    by (rule dram_launch_post_outside [OF _ assms(2)])
  then show ?thesis by (simp add: s)
qed

lemma add_stores:
  assumes "numel x < 2147483648" "e \<in> set (new_events d (snd (add x y d)))" "snd e = Store p v"
  shows "brk d \<le> p \<and> p < brk d + int (numel x)"
proof -
  obtain g where g: "g \<le> (numel x + 1024 - 1) div 1024" and
    s: "snd (add x y d) = launch_post (data_ptr x) (data_ptr y) (brk d) (numel x) 1024 [0..<g]
        (d\<lparr>brk := brk d + int (numel x)\<rparr>)"
    using add_launch by blast
  from assms(2) obtain pid D where pid: "pid < g" and
    "e \<in> set (instance_events (data_ptr x) (data_ptr y) (brk d) (numel x) 1024 pid D)"
    unfolding s new_events_launch_post by auto
  from instance_events_cases [OF this(2)] add_no_wrap [OF assms(1) g] pid assms(3)
  show ?thesis by auto
qed

lemma cell_below_extent: "i < numel t \<Longrightarrow> i * stride t < extent t"
proof -
  assume "i < numel t"
  then have "i \<le> numel t - 1" "numel t \<noteq> 0" by simp_all
  then have "i * stride t \<le> (numel t - 1) * stride t" by (intro mult_le_mono1)
  then have "i * stride t < Suc ((numel t - 1) * stride t)" by (rule le_imp_less_Suc)
  with \<open>numel t \<noteq> 0\<close> show ?thesis by (simp add: extent_def)
qed

lemma add_contents:
  assumes "numel x < 2147483648" "allocated d t"
  shows "contents (snd (add x y d)) t = contents d t"
proof -
  have "dram (snd (add x y d)) (data_ptr t + int (i * stride t)) = dram d (data_ptr t + int (i * stride t))"
    if "i < numel t" for i
  proof -
    from cell_below_extent [OF that] have "int (i * stride t) < int (extent t)"
      by (simp only: of_nat_less_iff)
    with assms(2) have "data_ptr t + int (i * stride t) < brk d"
      unfolding allocated_def by linarith
    then show ?thesis by (intro add_dram_outside [OF assms(1)]) simp
  qed
  then show ?thesis unfolding contents_def by (intro map_cong refl) simp
qed

lemma add_brk: "brk (snd (add x y d)) = brk d + int (numel x)"
proof -
  obtain g where "snd (add x y d) =
     launch_post (data_ptr x) (data_ptr y) (brk d) (numel x) 1024 [0..<g]
       (d\<lparr>brk := brk d + int (numel x)\<rparr>)"
    using add_launch by blast
  then show ?thesis by simp
qed

lemma add_allocated: "allocated d t \<Longrightarrow> allocated (snd (add x y d)) t"
  by (simp add: allocated_def add_brk)

text \<open>
  The values returned: the sums of the cells of \<open>x\<close> and of the cells at the same offsets
  from the pointer of \<open>y\<close>, as long as these lie below the output block and nothing wraps.
\<close>

lemma dram_add_with:
  assumes "is_cuda x" "is_cuda y" "P = 2 ^ k" "k \<le> 20" "numel x < 2147483648"
    "data_ptr x + int (numel x) \<le> brk d" "data_ptr y + int (numel x) \<le> brk d"
  shows "dram (snd (add_with P x y d)) a =
     (if brk d \<le> a \<and> a < brk d + int (numel x)
      then dram d (data_ptr x + (a - brk d)) + dram d (data_ptr y + (a - brk d)) else dram d a)"
proof -
  have P: "0 < P" using assms(3) by simp
  have b: "\<forall>p < (numel x + P - 1) div P. p * P + P \<le> 2147483648"
    using grid_no_wrap [OF assms(3) _ assms(5)] assms(4) by simp
  show ?thesis
    unfolding add_with_ok [OF assms(1-4)] snd_conv
      dram_launch_post_grid [OF assms(6,7) P b]
    by simp
qed

lemma result_add_with:
  assumes "is_cuda x" "is_cuda y" "P = 2 ^ k" "k \<le> 20" "numel x < 2147483648"
    "data_ptr x + int (numel x) \<le> brk d" "data_ptr y + int (numel x) \<le> brk d"
  shows "result (add_with P x y d) =
     Inr (map (\<lambda>i. dram d (data_ptr x + int i) + dram d (data_ptr y + int i)) [0..<numel x])"
proof -
  let ?out = "fst (empty_like x d)"
  have out: "fst (add_with P x y d) = Inr ?out" by (simp add: add_with_ok [OF assms(1-4)])
  have "contents (snd (add_with P x y d)) ?out =
      map (\<lambda>i. dram (snd (add_with P x y d)) (data_ptr ?out + int i)) [0..<numel ?out]"
    by (rule contents_contiguous) (rule contiguous_empty_like)
  also have "\<dots> = map (\<lambda>i. dram d (data_ptr x + int i) + dram d (data_ptr y + int i)) [0..<numel x]"
    by (simp add: empty_like_def dram_add_with [OF assms])
  finally show ?thesis by (simp add: result_def out)
qed

lemma result_add_with_fail:
  "\<not> (is_cuda x \<and> is_cuda y) \<Longrightarrow> result (add_with P x y d) = Inl AssertionError"
  by (simp add: add_with_fail result_def)

lemma result_add_with_values:
  assumes "allocated d x" "allocated d y" "contiguous x" "contiguous y"
    "numel x \<le> numel y" "numel x < 2147483648" "P = 2 ^ k" "k \<le> 20"
  shows "result (add_with P x y d) =
     (if is_cuda x \<and> is_cuda y
      then Inr (map (\<lambda>i. contents d x ! i + contents d y ! i) [0..<numel x])
      else Inl AssertionError)"
proof (cases "is_cuda x \<and> is_cuda y")
  case True
  have px: "data_ptr x + int (numel x) \<le> brk d"
    using allocated_contiguous [OF assms(3,1)] by simp
  have py: "data_ptr y + int (numel x) \<le> brk d"
    using allocated_contiguous [OF assms(4,2)] assms(5) by simp
  have "result (add_with P x y d) =
     Inr (map (\<lambda>i. dram d (data_ptr x + int i) + dram d (data_ptr y + int i)) [0..<numel x])"
    using True by (intro result_add_with [OF _ _ assms(7,8,6) px py]) simp_all
  also have "map (\<lambda>i. dram d (data_ptr x + int i) + dram d (data_ptr y + int i)) [0..<numel x] =
     map (\<lambda>i. contents d x ! i + contents d y ! i) [0..<numel x]"
    using assms(5) by (intro map_cong refl) (simp add: contents_nth [OF assms(3)] contents_nth [OF assms(4)])
  finally show ?thesis using True by simp
next
  case False
  then show ?thesis by (simp add: result_add_with_fail)
qed

subsection \<open>The concrete runs\<close>

lemma tensA_eq: "tensA = \<lparr>data_ptr = 0, numel = 5, stride = 1, is_cuda = True\<rparr>"
  by (simp add: tensA_def new_tensor_def dev0_def)

lemma tensB_eq: "tensB = \<lparr>data_ptr = 5, numel = 5, stride = 1, is_cuda = True\<rparr>"
  by (simp add: tensB_def dev1_def new_tensor_def dev0_def)

lemma brk_dev2: "brk dev2 = 10"
  by (simp add: dev2_def dev1_def new_tensor_def dev0_def)

lemma dram_dev2:
  "dram dev2 = (\<lambda>a. if 5 \<le> a \<and> a < 10 then [10, 20, 30, 40, 50] ! nat (a - 5)
                     else if 0 \<le> a \<and> a < 5 then [1, 2, 3, 4, 5] ! nat a else 0)"
proof -
  have l: "length [1, 2, 3, 4, 5 :: int] = 5" "length [10, 20, 30, 40, 50 :: int] = 5" by simp_all
  show ?thesis
    unfolding dev2_def dev1_def new_tensor_def dev0_def l
    by (rule ext) (simp cong: if_cong)
qed

lemma contents_tensA: "contents dev2 tensA = [1, 2, 3, 4, 5]"
  by (simp add: contents_def tensA_eq dram_dev2 upt_rec)

lemma contents_tensB: "contents dev2 tensB = [10, 20, 30, 40, 50]"
  by (simp add: contents_def tensB_eq dram_dev2 upt_rec)

lemma tens_ok:
  "is_cuda tensA" "is_cuda tensB" "contiguous tensA" "contiguous tensB"
  "allocated dev2 tensA" "allocated dev2 tensB" "numel tensA = 5" "numel tensB = 5"
  by (simp_all add: tensA_eq tensB_eq contiguous_def allocated_def extent_def brk_dev2)

lemma run_ok:
  "add_with 2 tensA tensB dev2 =
     (Inr \<lparr>data_ptr = 10, numel = 5, stride = 1, is_cuda = True\<rparr>,
      launch_post 0 5 10 5 2 [0..<3] (dev2\<lparr>brk := 15\<rparr>))"
  using add_with_ok [of tensA tensB 2 1 dev2]
  by (simp add: tensA_eq tensB_eq brk_dev2 empty_like_def contiguous_def)

lemma run_dram_inputs:
  assumes "\<forall>p \<in> set pids. p < 3" "a < 10"
  shows "dram (launch_post 0 5 10 5 2 pids (dev2\<lparr>brk := 15\<rparr>)) a = dram dev2 a"
proof -
  have "\<forall>p \<in> set pids. p * 2 + 2 \<le> 2147483648" using assms(1) by auto
  from dram_launch_post_outside [OF this, of 10 a 5 0 5 "dev2\<lparr>brk := 15\<rparr>"] assms(2)
  show ?thesis by simp
qed

lemma run_events:
  "new_events dev2 (snd (add_with 2 tensA tensB dev2)) =
     [(0, Load 0), (0, Load 1), (0, Load 5), (0, Load 6), (0, Store 10 11), (0, Store 11 22),
      (1, Load 2), (1, Load 3), (1, Load 7), (1, Load 8), (1, Store 12 33), (1, Store 13 44),
      (2, Load 4), (2, Load 9), (2, Store 14 55)]"
proof -
  have s: "slanes 5 2 p = map int (lanes 5 2 p)" if "p < 3" for p
    using that by (intro slanes_no_wrap) simp
  have g: "[0..<3::nat] = [0, 1, 2]" by (simp add: upt_rec)
  have l: "slanes 5 2 0 = [0, 1]" "slanes 5 2 (Suc 0) = [2, 3]" "slanes 5 2 2 = [4]"
    by (simp_all add: s lanes_upt upt_rec)
  have e0: "instance_events 0 5 10 5 2 0 (launch_post 0 5 10 5 2 [0..<0] (dev2\<lparr>brk := 15\<rparr>)) =
      [(0, Load 0), (0, Load 1), (0, Load 5), (0, Load 6), (0, Store 10 11), (0, Store 11 22)]"
    by (simp add: instance_events_def l dram_dev2)
  have e1: "instance_events 0 5 10 5 2 1 (launch_post 0 5 10 5 2 [0..<1] (dev2\<lparr>brk := 15\<rparr>)) =
      [(1, Load 2), (1, Load 3), (1, Load 7), (1, Load 8), (1, Store 12 33), (1, Store 13 44)]"
    by (simp add: instance_events_def l run_dram_inputs dram_dev2)
  have u: "[0..<2::nat] = [0, 1]" by (simp add: upt_rec)
  have e2: "instance_events 0 5 10 5 2 2 (launch_post 0 5 10 5 2 [0..<2] (dev2\<lparr>brk := 15\<rparr>)) =
      [(2, Load 4), (2, Load 9), (2, Store 14 55)]"
    unfolding u by (simp add: instance_events_def l run_dram_inputs dram_dev2)
  show ?thesis
    unfolding run_ok snd_conv new_events_launch_post
    unfolding g
    by (simp only: list.map concat.simps e0 e1 e2 append.simps)
qed

lemma run_result: "result (add_with 2 tensA tensB dev2) = Inr [11, 22, 33, 44, 55]"
proof -
  have "result (add_with 2 tensA tensB dev2) =
      Inr (map (\<lambda>i. dram dev2 (data_ptr tensA + int i) + dram dev2 (data_ptr tensB + int i)) [0..<numel tensA])"
    by (rule result_add_with [where k = 1]) (simp_all add: tensA_eq tensB_eq brk_dev2)
  then show ?thesis by (simp add: tensA_eq tensB_eq dram_dev2 upt_rec)
qed

lemma tensC_eq: "tensC = \<lparr>data_ptr = 10, numel = 3, stride = 1, is_cuda = True\<rparr>"
  by (simp add: tensC_def new_tensor_def brk_dev2)

lemma brk_dev3: "brk dev3 = 13"
  by (simp add: dev3_def new_tensor_def brk_dev2)

lemma dram_dev3:
  "dram dev3 = (\<lambda>a. if 10 \<le> a \<and> a < 13 then [100, 200, 300] ! nat (a - 10) else dram dev2 a)"
proof -
  have l: "length [100, 200, 300 :: int] = 3" by simp
  show ?thesis
    unfolding dev3_def new_tensor_def l brk_dev2
    by (rule ext) (simp cong: if_cong)
qed

lemma contents_dev3_tensA: "contents dev3 tensA = [1, 2, 3, 4, 5]"
  by (simp add: contents_def tensA_eq dram_dev3 dram_dev2 upt_rec)

lemma contents_dev3_tensB: "contents dev3 tensB = [10, 20, 30, 40, 50]"
  by (simp add: contents_def tensB_eq dram_dev3 dram_dev2 upt_rec)

lemma contents_dev3_tensC: "contents dev3 tensC = [100, 200, 300]"
  by (simp add: contents_def tensC_eq dram_dev3 upt_rec)

text \<open>One instance of 1024 lanes on five elements, both calls of it.\<close>

lemma slanes_5_1024: "slanes 5 1024 0 = [0, 1, 2, 3, 4]"
proof -
  have "slanes 5 1024 0 = map int (lanes 5 1024 0)" by (rule slanes_no_wrap) simp
  then show ?thesis by (simp add: lanes_upt upt_rec)
qed

lemma add_5_post:
  assumes "is_cuda x" "is_cuda y" "numel x = 5"
  shows "snd (add x y d) =
     kernel_post (data_ptr x) (data_ptr y) (brk d) 5 1024 0 (d\<lparr>brk := brk d + 5\<rparr>)"
proof -
  show ?thesis
    using add_with_ok [OF assms(1,2), of 1024 10 d]
    by (simp add: add_def assms(3) launch_post_def)
qed

lemma add_5_dram:
  assumes "is_cuda x" "is_cuda y" "numel x = 5"
  shows "dram (snd (add x y d)) a =
     (if brk d \<le> a \<and> a < brk d + 5
      then dram d (data_ptr x + (a - brk d)) + dram d (data_ptr y + (a - brk d)) else dram d a)"
proof -
  have "a - brk d \<in> set (slanes 5 1024 0) \<longleftrightarrow> brk d \<le> a \<and> a < brk d + 5"
    unfolding slanes_5_1024 by auto
  then show ?thesis
    unfolding add_5_post [OF assms] dram_kernel_post by simp
qed

subsection \<open>Tensors of \<open>2^31 + 5\<close> elements\<close>

text \<open>
  The grid of \<open>add\<close> on \<open>2^31 + 5\<close> elements has \<open>2^21 + 1\<close> instances. In the last one,
  \<open>pid * BLOCK_SIZE\<close> is \<open>2^31\<close>, which wraps to \<open>- 2^31\<close>: every lane passes the mask and
  the instance works \<open>2^31\<close> cells below the three pointers.
\<close>

lemma big_grid: "(bigN + 1024 - 1) div 1024 = 2097153"
  by (simp add: bigN_def)

lemma big_upt: "[0..<2097153] = [0..<2097152] @ [2097152]"
proof -
  have "[0..<Suc 2097152] = [0..<2097152] @ [2097152]" by (rule upt_Suc_append) simp
  then show ?thesis by simp
qed

lemma big_first_lane: "- 2147483648 \<in> set (slanes n 1024 2097152)"
proof -
  have "sint (word_of_nat 2097152 * word_of_nat 1024 + word_of_nat 0 :: 32 word)
      \<in> set (soffs 1024 2097152)"
    unfolding soffs_def set_map by (rule imageI) simp
  then have "- 2147483648 \<in> set (soffs 1024 2097152)" by simp
  then show ?thesis by (simp add: slanes_def)
qed

lemma big_post:
  "add bigX bigY bigDev =
     (Inr \<lparr>data_ptr = 2 * int bigN, numel = bigN, stride = 1, is_cuda = True\<rparr>,
      kernel_post 0 (int bigN) (2 * int bigN) bigN 1024 2097152
        (launch_post 0 (int bigN) (2 * int bigN) bigN 1024 [0..<2097152]
           (bigDev\<lparr>brk := 3 * int bigN\<rparr>)))"
proof -
  have "add bigX bigY bigDev =
     (Inr (fst (empty_like bigX bigDev)),
      launch_post (data_ptr bigX) (data_ptr bigY) (brk bigDev) (numel bigX) 1024
        [0..<(numel bigX + 1024 - 1) div 1024]
        (bigDev\<lparr>brk := brk bigDev + int (numel bigX)\<rparr>))"
    unfolding add_def by (rule add_with_ok [where k = 10]) (simp_all add: bigX_def bigY_def)
  moreover have "numel bigX = bigN" "data_ptr bigX = 0" "data_ptr bigY = int bigN"
    "brk bigDev = 2 * int bigN"
    "fst (empty_like bigX bigDev) = \<lparr>data_ptr = 2 * int bigN, numel = bigN, stride = 1, is_cuda = True\<rparr>"
    by (simp_all add: bigX_def bigY_def bigDev_def empty_like_def contiguous_def)
  ultimately show ?thesis
    by (simp only: big_grid big_upt launch_post_snoc) simp
qed

text \<open>The instances before the last do not wrap and leave every cell below the output alone.\<close>

lemma big_before_last:
  assumes "a < 2 * int bigN"
  shows "dram (launch_post 0 (int bigN) (2 * int bigN) bigN 1024 [0..<2097152]
           (bigDev\<lparr>brk := 3 * int bigN\<rparr>)) a = 1"
proof -
  have "\<forall>p \<in> set [0..<2097152]. p * 1024 + 1024 \<le> 2147483648" by auto
  from dram_launch_post_outside [OF this, of "2 * int bigN" a bigN 0 "int bigN"
      "bigDev\<lparr>brk := 3 * int bigN\<rparr>"] assms
  show ?thesis by (simp add: bigDev_def)
qed

lemma big_dram:
  "dram (snd (add bigX bigY bigDev)) a =
     (if a - 2 * int bigN \<in> set (slanes bigN 1024 2097152)
      then dram (launch_post 0 (int bigN) (2 * int bigN) bigN 1024 [0..<2097152]
             (bigDev\<lparr>brk := 3 * int bigN\<rparr>)) (a - 2 * int bigN) +
           dram (launch_post 0 (int bigN) (2 * int bigN) bigN 1024 [0..<2097152]
             (bigDev\<lparr>brk := 3 * int bigN\<rparr>)) (int bigN + (a - 2 * int bigN))
      else dram (launch_post 0 (int bigN) (2 * int bigN) bigN 1024 [0..<2097152]
             (bigDev\<lparr>brk := 3 * int bigN\<rparr>)) a)"
  unfolding big_post snd_conv dram_kernel_post by simp

text \<open>The cell of element 5 of \<open>bigY\<close> is overwritten by the last instance.\<close>

lemma big_overwrites: "dram (snd (add bigX bigY bigDev)) (int bigN + 5) = 2"
proof -
  have eq: "int bigN + 5 - 2 * int bigN = - 2147483648" by (simp add: bigN_def)
  have "int bigN + 5 - 2 * int bigN \<in> set (slanes bigN 1024 2097152)"
    unfolding eq by (rule big_first_lane)
  then have "dram (snd (add bigX bigY bigDev)) (int bigN + 5) =
      dram (launch_post 0 (int bigN) (2 * int bigN) bigN 1024 [0..<2097152]
             (bigDev\<lparr>brk := 3 * int bigN\<rparr>)) (int bigN + 5 - 2 * int bigN) +
      dram (launch_post 0 (int bigN) (2 * int bigN) bigN 1024 [0..<2097152]
             (bigDev\<lparr>brk := 3 * int bigN\<rparr>)) (int bigN + (int bigN + 5 - 2 * int bigN))"
    by (simp only: big_dram if_True)
  also have "\<dots> = 1 + 1"
  proof -
    have "dram (launch_post 0 (int bigN) (2 * int bigN) bigN 1024 [0..<2097152]
             (bigDev\<lparr>brk := 3 * int bigN\<rparr>)) (int bigN + 5 - 2 * int bigN) = 1"
      by (rule big_before_last) (simp add: bigN_def)
    moreover have "dram (launch_post 0 (int bigN) (2 * int bigN) bigN 1024 [0..<2097152]
             (bigDev\<lparr>brk := 3 * int bigN\<rparr>)) (int bigN + (int bigN + 5 - 2 * int bigN)) = 1"
      by (rule big_before_last) (simp add: bigN_def)
    ultimately show ?thesis by (simp only:)
  qed
  finally show ?thesis by simp
qed

text \<open>No store reaches output index \<open>2^31\<close>, in the log or in memory.\<close>

lemma no_far_store:
  assumes "e \<in> set (new_events d (launch_post xp yp q n P [0..<g] (d\<lparr>brk := b\<rparr>)))"
  shows "\<not> is_store_at (q + 2147483648) e"
proof -
  from assms obtain pid D where "e \<in> set (instance_events xp yp q n P pid D)"
    unfolding new_events_launch_post by auto
  from instance_events_signed [OF this] obtain s where s: "s \<in> set (slanes n P pid)"
    and e: "snd e = Load (xp + s) \<or> snd e = Load (yp + s) \<or>
            snd e = Store (q + s) (dram D (xp + s) + dram D (yp + s))"
    by blast
  from s have "s < 2147483648" using soffs_range [of s P pid] by (simp add: slanes_def)
  with e show ?thesis by (cases e) auto
qed

lemma big_unwritten_log:
  "filter (is_store_at (2 * int bigN + 2147483648)) (new_events bigDev (snd (add bigX bigY bigDev))) = []"
proof -
  have "snd (add bigX bigY bigDev) =
      launch_post 0 (int bigN) (2 * int bigN) bigN 1024 [0..<2097153] (bigDev\<lparr>brk := 3 * int bigN\<rparr>)"
    unfolding big_post snd_conv big_upt launch_post_snoc ..
  then show ?thesis
    using no_far_store [of _ bigDev 0 "int bigN" "2 * int bigN" bigN 1024 2097153 "3 * int bigN"]
    by (simp add: filter_empty_conv)
qed

lemma big_unwritten: "dram (snd (add bigX bigY bigDev)) (2 * int bigN + 2147483648) = 1"
proof -
  have "snd (add bigX bigY bigDev) =
      launch_post 0 (int bigN) (2 * int bigN) bigN 1024 [0..<2097153] (bigDev\<lparr>brk := 3 * int bigN\<rparr>)"
    unfolding big_post snd_conv big_upt launch_post_snoc ..
  then show ?thesis
    using dram_launch_post_far [of "2 * int bigN + 2147483648" "2 * int bigN" bigN 0 "int bigN" 1024
        "[0..<2097153]" "bigDev\<lparr>brk := 3 * int bigN\<rparr>"]
    by (simp add: bigDev_def)
qed

subsection \<open>Block sizes Triton rejects, and views\<close>

lemma tl_arange_3: "tl_arange 0 3 = Inl ValueError"
  by (simp add: tl_arange_def)

lemma run_3: "add_with 3 tensA tensB dev2 = (Inl ValueError, dev2\<lparr>brk := 15\<rparr>)"
  using add_with_raises [OF tens_ok(1,2) _ tl_arange_3, of dev2]
  by (simp add: tens_ok brk_dev2)

lemma contents_views: "contents dev2 viewA = [1, 3, 5]" "contents dev2 viewB = [10, 30, 50]"
  by (simp_all add: contents_def viewA_def viewB_def dram_dev2 upt_rec)

lemma run_views: "result (add viewA viewB dev2) = Inr [11, 22, 33]"
proof -
  have "result (add_with 1024 viewA viewB dev2) =
      Inr (map (\<lambda>i. dram dev2 (data_ptr viewA + int i) + dram dev2 (data_ptr viewB + int i)) [0..<numel viewA])"
    by (rule result_add_with [where k = 10]) (simp_all add: viewA_def viewB_def brk_dev2)
  then show ?thesis by (simp add: add_def viewA_def viewB_def dram_dev2 upt_rec)
qed

lemma big_fst: "fst (add bigX bigY bigDev) = Inr bigOut"
  by (simp add: big_post bigOut_def)

lemma run1024_fst:
  "fst (add tensA tensB dev2) = Inr \<lparr>data_ptr = 10, numel = 5, stride = 1, is_cuda = True\<rparr>"
  using add_with_ok [OF tens_ok(1,2), of 1024 10 dev2]
  by (simp add: add_def empty_like_def tensA_eq contiguous_def brk_dev2)

lemma run1024_store:
  "(0, Store 10 11) \<in> set (new_events dev2 (snd (add tensA tensB dev2)))"
proof -
  have "new_events dev2 (snd (add tensA tensB dev2)) =
      instance_events 0 5 10 5 1024 0 (dev2\<lparr>brk := 15\<rparr>)"
    unfolding add_5_post [OF tens_ok(1,2,7)]
    by (simp add: new_events_def trace_kernel_post tensA_eq tensB_eq brk_dev2)
  then show ?thesis by (simp add: instance_events_def slanes_5_1024 dram_dev2)
qed

lemma result_add_with_cong:
  assumes "contents d1 x1 = contents d2 x2" "contents d1 y1 = contents d2 y2"
    "is_cuda x1 = is_cuda x2" "is_cuda y1 = is_cuda y2"
    "allocated d1 x1" "allocated d1 y1" "allocated d2 x2" "allocated d2 y2"
    "contiguous x1" "contiguous y1" "contiguous x2" "contiguous y2"
    "numel x1 \<le> numel y1" "numel x1 < 2147483648"
    "P = 2 ^ k" "k \<le> 20" "P' = 2 ^ k'" "k' \<le> 20"
  shows "result (add_with P x1 y1 d1) = result (add_with P' x2 y2 d2)"
proof -
  have nx: "numel x2 = numel x1" using assms(1) numel_contents by metis
  have ny: "numel y2 = numel y1" using assms(2) numel_contents by metis
  have 1: "result (add_with P x1 y1 d1) =
     (if is_cuda x1 \<and> is_cuda y1
      then Inr (map (\<lambda>i. contents d1 x1 ! i + contents d1 y1 ! i) [0..<numel x1])
      else Inl AssertionError)"
    by (rule result_add_with_values [OF assms(5,6,9,10,13,14,15,16)])
  have 2: "result (add_with P' x2 y2 d2) =
     (if is_cuda x2 \<and> is_cuda y2
      then Inr (map (\<lambda>i. contents d2 x2 ! i + contents d2 y2 ! i) [0..<numel x2])
      else Inl AssertionError)"
    using assms(13,14) by (intro result_add_with_values [OF assms(7,8,11,12) _ _ assms(17,18)]) (simp_all add: nx ny)
  show ?thesis unfolding 1 2 nx assms(1,2,3,4) ..
qed

section \<open>The claims\<close>

text \<open>
  C1, as stated: for every pair of equal-length vectors and every positive chunk size the
  add operation returns the element-wise sums. The code does so only inside the domain of
  the kernel. With chunk size 3 the call raises, since \<open>tl.arange\<close> wants a power of two.
  For the views \<open>A[::2] = [1,3,5]\<close> and \<open>B[::2] = [10,30,50]\<close> the kernel, which is given
  the data pointers and no stride, adds neighbouring cells and returns \<open>[11,22,33]\<close>. For
  \<open>2^31 + 5\<close> elements the 32-bit offsets wrap and output index \<open>2^31\<close> is never written:
  it still holds 1 where the sum is 2.
\<close>

theorem add_outside_kernel_domain:
  "result (add_with 3 tensA tensB dev2) = Inl ValueError \<and>
   contents dev2 viewA = [1, 3, 5] \<and> contents dev2 viewB = [10, 30, 50] \<and>
   result (add viewA viewB dev2) = Inr [11, 22, 33] \<and>
   fst (add bigX bigY bigDev) = Inr bigOut \<and>
   contents bigDev bigX ! 2147483648 + contents bigDev bigY ! 2147483648 = 2 \<and>
   contents (snd (add bigX bigY bigDev)) bigOut ! 2147483648 = 1"
proof -
  have r3: "result (add_with 3 tensA tensB dev2) = Inl ValueError"
    by (simp add: run_3 result_def)
  have i: "(2147483648::nat) < bigN" by (simp add: bigN_def)
  have s: "contents bigDev bigX ! 2147483648 + contents bigDev bigY ! 2147483648 = 2"
    using i by (simp add: contents_def bigX_def bigY_def bigDev_def)
  have "contents (snd (add bigX bigY bigDev)) bigOut ! 2147483648 =
      dram (snd (add bigX bigY bigDev)) (2 * int bigN + 2147483648)"
    using i by (simp add: contents_def bigOut_def)
  then have u: "contents (snd (add bigX bigY bigDev)) bigOut ! 2147483648 = 1"
    by (simp only: big_unwritten)
  from r3 contents_views run_views big_fst s u show ?thesis by (intro conjI)
qed

text \<open>
  C1, amended: for every pair of contiguous vectors of the same length \<open>N < 2^31\<close>, resident
  on the accelerator, and every chunk size that is a power of two up to \<open>2^20\<close>, the add
  operation returns a vector \<open>C\<close> of length \<open>N\<close> with \<open>C[i] = A[i] + B[i]\<close> for every
  \<open>i < N\<close>. This holds for the body of \<open>add\<close> run with any such chunk size and for \<open>add\<close>
  itself, which runs it with 1024.
\<close>

theorem add_elementwise_sum:
  assumes "is_cuda x" "is_cuda y" "allocated d x" "allocated d y" "contiguous x" "contiguous y"
    "numel y = numel x" "numel x < 2147483648" "P = 2 ^ k" "k \<le> 20"
  shows "(\<exists>C. result (add_with P x y d) = Inr C \<and> length C = numel x \<and>
            (\<forall>i<numel x. C ! i = contents d x ! i + contents d y ! i)) \<and>
         (\<exists>C. result (add x y d) = Inr C \<and> length C = numel x \<and>
            (\<forall>i<numel x. C ! i = contents d x ! i + contents d y ! i))"
proof -
  have le: "numel x \<le> numel y" using assms(7) by simp
  have "\<exists>C. result (add_with Q x y d) = Inr C \<and> length C = numel x \<and>
            (\<forall>i<numel x. C ! i = contents d x ! i + contents d y ! i)"
    if "Q = 2 ^ j" "j \<le> 20" for Q j
    unfolding result_add_with_values [OF assms(3-6) le assms(8) that]
    using assms(1,2) by simp
  from this [OF assms(9,10)] this [of 1024 10] show ?thesis by (simp add: add_def)
qed

theorem add_elementwise_sum_witness:
  "is_cuda tensA \<and> is_cuda tensB \<and> allocated dev2 tensA \<and> allocated dev2 tensB \<and>
   contiguous tensA \<and> contiguous tensB \<and> numel tensB = numel tensA \<and>
   numel tensA < 2147483648 \<and> (2::nat) = 2 ^ 1 \<and> (1::nat) \<le> 20 \<and> 4 < numel tensA \<and>
   (\<exists>C. result (add_with 2 tensA tensB dev2) = Inr C \<and> length C = 5 \<and> C ! 4 = 55)"
proof -
  have h: "is_cuda tensA" "is_cuda tensB" "allocated dev2 tensA" "allocated dev2 tensB"
    "contiguous tensA" "contiguous tensB" "numel tensB = numel tensA"
    "numel tensA < 2147483648" "(2::nat) = 2 ^ 1" "(1::nat) \<le> 20"
    by (simp_all add: tens_ok)
  from add_elementwise_sum [OF h] obtain C where
    C: "result (add_with 2 tensA tensB dev2) = Inr C" "length C = numel tensA"
      "\<forall>i<numel tensA. C ! i = contents dev2 tensA ! i + contents dev2 tensB ! i"
    by blast
  have i: "4 < numel tensA" by (simp add: tens_ok)
  with C(3) have "C ! 4 = contents dev2 tensA ! 4 + contents dev2 tensB ! 4" by blast
  then have "C ! 4 = 55" by (simp add: contents_tensA contents_tensB)
  with C(1,2) h i show ?thesis by (simp add: tens_ok)
qed

text \<open>
  C2, as stated: inputs of different lengths make \<open>add\<close> fail with a precondition error and
  never give a truncated result. The code compares no lengths: with \<open>x\<close> of length 3 and
  \<open>y\<close> of length 5, both resident, \<open>add\<close> returns the three sums and ignores the rest of
  \<open>y\<close>.
\<close>

theorem add_accepts_length_mismatch:
  "numel tensC \<noteq> numel tensA \<and> contents dev3 tensC = [100, 200, 300] \<and>
   contents dev3 tensA = [1, 2, 3, 4, 5] \<and>
   result (add tensC tensA dev3) = Inr [101, 202, 303]"
proof -
  have "result (add_with 1024 tensC tensA dev3) =
      Inr (map (\<lambda>i. dram dev3 (data_ptr tensC + int i) + dram dev3 (data_ptr tensA + int i)) [0..<numel tensC])"
    by (rule result_add_with [where k = 10]) (simp_all add: tensA_eq tensC_eq brk_dev3)
  then have r: "result (add tensC tensA dev3) = Inr [101, 202, 303]"
    by (simp add: add_def tensA_eq tensC_eq dram_dev3 dram_dev2 upt_rec)
  have n: "numel tensC \<noteq> numel tensA" by (simp add: tensA_eq tensC_eq)
  from n contents_dev3_tensC contents_dev3_tensA r show ?thesis by (intro conjI)
qed

text \<open>
  C2, amended: whatever the lengths of the inputs, \<open>add\<close> fails, with the assertion failure,
  exactly when \<open>x\<close> or \<open>y\<close> is not resident on the accelerator; it fails before any kernel
  instance is dispatched (nothing is logged and no cell has changed).
\<close>

theorem add_fails_iff_not_resident:
  "(result (add x y d) = Inl AssertionError \<longleftrightarrow> \<not> (is_cuda x \<and> is_cuda y)) \<and>
   (\<not> (is_cuda x \<and> is_cuda y) \<longrightarrow>
      new_events d (snd (add x y d)) = [] \<and> dram (snd (add x y d)) = dram d)"
proof (cases "is_cuda x \<and> is_cuda y")
  case True
  then have "fst (add x y d) = Inr (fst (empty_like x d))"
    using add_with_ok [of x y 1024 10 d] by (simp add: add_def)
  then have "result (add x y d) \<noteq> Inl AssertionError" by (simp add: result_def)
  with True show ?thesis by simp
next
  case False
  then have "add x y d = (Inl AssertionError, d\<lparr>brk := brk d + int (numel x)\<rparr>)"
    unfolding add_def by (rule add_with_fail)
  with False show ?thesis by (simp add: result_def new_events_def)
qed

theorem add_fails_iff_not_resident_witness:
  "\<not> (is_cuda (tensA\<lparr>is_cuda := False\<rparr>) \<and> is_cuda tensB) \<and>
   result (add (tensA\<lparr>is_cuda := False\<rparr>) tensB dev2) = Inl AssertionError \<and>
   new_events dev2 (snd (add (tensA\<lparr>is_cuda := False\<rparr>) tensB dev2)) = [] \<and>
   dram (snd (add (tensA\<lparr>is_cuda := False\<rparr>) tensB dev2)) = dram dev2"
proof -
  have h: "\<not> (is_cuda (tensA\<lparr>is_cuda := False\<rparr>) \<and> is_cuda tensB)" by simp
  from add_fails_iff_not_resident [of "tensA\<lparr>is_cuda := False\<rparr>" tensB dev2] h
  show ?thesis by blast
qed

text \<open>
  C3, as stated: for every length, chunk size and worker index no access falls outside
  \<open>[0, N)\<close>. The offsets are 32-bit: in instance \<open>2^21\<close> of the grid for \<open>2^31 + 5\<close>
  elements and chunk size 1024 the block start wraps to \<open>- 2^31\<close>, the mask lets the lane
  through, and the instance loads and stores \<open>2^31\<close> cells below the pointers.
\<close>

theorem kernel_offsets_wrap:
  "cdiv bigN 1024 = Inr 2097153 \<and>
   (2097152, Load (0 - 2147483648)) \<in>
     set (kernel_events bigDev (add_kernel 0 (int bigN) (2 * int bigN) bigN 1024 2097152 bigDev)) \<and>
   (2097152, Store (2 * int bigN - 2147483648) 2) \<in>
     set (kernel_events bigDev (add_kernel 0 (int bigN) (2 * int bigN) bigN 1024 2097152 bigDev))"
proof -
  have ev: "kernel_events bigDev (add_kernel 0 (int bigN) (2 * int bigN) bigN 1024 2097152 bigDev) =
      instance_events 0 (int bigN) (2 * int bigN) bigN 1024 2097152 bigDev"
    by (rule kernel_events_ok) (rule tl_arange_ok [where k = 10], simp_all)
  have "(2097152, Load (0 + (- 2147483648))) \<in>
      set (instance_events 0 (int bigN) (2 * int bigN) bigN 1024 2097152 bigDev)"
    unfolding instance_events_def using big_first_lane [of bigN] by (simp add: image_iff)
  moreover have "(2097152, Store (2 * int bigN + (- 2147483648))
      (dram bigDev (0 + (- 2147483648)) + dram bigDev (int bigN + (- 2147483648)))) \<in>
      set (instance_events 0 (int bigN) (2 * int bigN) bigN 1024 2097152 bigDev)"
    unfolding instance_events_def using big_first_lane [of bigN] by (simp add: image_iff)
  moreover have "dram bigDev a = 1" for a by (simp add: bigDev_def)
  moreover have "cdiv bigN 1024 = Inr 2097153" by (simp add: cdiv_def bigN_def)
  ultimately show ?thesis by (simp add: ev)
qed

text \<open>
  C3, amended: in every instance of the kernel that runs, whatever the length \<open>n\<close>, with a
  chunk size \<open>P\<close> and a program id \<open>pid\<close> such that \<open>pid * P + P \<le> 2^31\<close>, the accesses are
  exactly the loads of \<open>x\<close> and \<open>y\<close> and the stores to the output at the offsets of the block
  that are below \<open>n\<close>: an offset \<open>off \<ge> n\<close> of the block is neither read nor written, also
  when \<open>n\<close> is not a multiple of \<open>P\<close>. The memory after the instance is the memory before it
  with the logged stores applied.
\<close>

theorem kernel_accesses_masked:
  assumes "add_kernel x_ptr y_ptr output_ptr n P pid d = Inr d'" "pid * P + P \<le> 2147483648"
  shows "new_events d d' =
     map (\<lambda>off. (pid, Load (x_ptr + int off))) [pid * P ..< min (pid * P + P) n] @
     map (\<lambda>off. (pid, Load (y_ptr + int off))) [pid * P ..< min (pid * P + P) n] @
     map (\<lambda>off. (pid, Store (output_ptr + int off)
                         (dram d (x_ptr + int off) + dram d (y_ptr + int off))))
       [pid * P ..< min (pid * P + P) n]
   \<and> (\<forall>e \<in> set (new_events d d').
        \<exists>off. pid * P \<le> off \<and> off < pid * P + P \<and> off < n \<and>
          (snd e = Load (x_ptr + int off) \<or> snd e = Load (y_ptr + int off) \<or>
           (\<exists>v. snd e = Store (output_ptr + int off) v)))
   \<and> dram d' = replay (new_events d d') (dram d)"
proof -
  have "tl_arange 0 P = Inl ValueError \<or> tl_arange 0 P = Inr (map word_of_nat [0..<P])"
    by (simp add: tl_arange_def Let_def)
  with assms(1) have ok: "tl_arange 0 P = Inr (map word_of_nat [0..<P])"
    by (auto simp: add_kernel_raises)
  from assms(1) have d': "d' = kernel_post x_ptr y_ptr output_ptr n P pid d"
    by (simp add: add_kernel_ok [OF ok])
  have ev: "new_events d d' = instance_events x_ptr y_ptr output_ptr n P pid d"
    unfolding d' by (rule new_events_kernel_post)
  have 1: "new_events d d' =
     map (\<lambda>off. (pid, Load (x_ptr + int off))) [pid * P ..< min (pid * P + P) n] @
     map (\<lambda>off. (pid, Load (y_ptr + int off))) [pid * P ..< min (pid * P + P) n] @
     map (\<lambda>off. (pid, Store (output_ptr + int off)
                         (dram d (x_ptr + int off) + dram d (y_ptr + int off))))
       [pid * P ..< min (pid * P + P) n]"
    unfolding ev instance_events_def slanes_no_wrap [OF assms(2)] lanes_upt
    by (simp add: comp_def)
  have 2: "\<forall>e \<in> set (new_events d d').
        \<exists>off. pid * P \<le> off \<and> off < pid * P + P \<and> off < n \<and>
          (snd e = Load (x_ptr + int off) \<or> snd e = Load (y_ptr + int off) \<or>
           (\<exists>v. snd e = Store (output_ptr + int off) v))"
    unfolding ev using instance_events_cases [OF _ assms(2)] by blast
  have 3: "dram d' = replay (new_events d d') (dram d)"
    unfolding ev by (simp add: d' kernel_post_def)
  from 1 2 3 show ?thesis by (intro conjI)
qed

theorem kernel_accesses_masked_witness:
  "add_kernel 0 5 10 5 2 2 dev2 = Inr (kernel_post 0 5 10 5 2 2 dev2) \<and>
   (2::nat) * 2 + 2 \<le> 2147483648 \<and>
   new_events dev2 (kernel_post 0 5 10 5 2 2 dev2) = [(2, Load 4), (2, Load 9), (2, Store 14 55)] \<and>
   (2, Store 14 55) \<in> set (new_events dev2 (kernel_post 0 5 10 5 2 2 dev2)) \<and>
   (\<exists>off. 2 * 2 \<le> off \<and> off < 2 * 2 + 2 \<and> off < (5::nat) \<and>
      (snd (2::nat, Store 14 (55::int)) = Load (0 + int off) \<or>
       snd (2::nat, Store 14 (55::int)) = Load (5 + int off) \<or>
       (\<exists>v. snd (2::nat, Store 14 (55::int)) = Store (10 + int off) v))) \<and>
   dram (kernel_post 0 5 10 5 2 2 dev2) 14 = 55"
proof -
  have k: "add_kernel 0 5 10 5 2 2 dev2 = Inr (kernel_post 0 5 10 5 2 2 dev2)"
    by (rule add_kernel_ok) (rule tl_arange_ok [where k = 1], simp_all)
  have b: "(2::nat) * 2 + 2 \<le> 2147483648" by simp
  note t = kernel_accesses_masked [OF k b]
  have u: "[2 * 2 ..< min (2 * 2 + 2) (5::nat)] = [4]" by (simp add: upt_rec)
  from t have ev: "new_events dev2 (kernel_post 0 5 10 5 2 2 dev2) =
      [(2, Load 4), (2, Load 9), (2, Store 14 55)]"
    unfolding u by (simp add: dram_dev2)
  then have mem: "(2, Store 14 55) \<in> set (new_events dev2 (kernel_post 0 5 10 5 2 2 dev2))"
    by simp
  from t mem have ex: "\<exists>off. 2 * 2 \<le> off \<and> off < 2 * 2 + 2 \<and> off < (5::nat) \<and>
      (snd (2::nat, Store 14 (55::int)) = Load (0 + int off) \<or>
       snd (2::nat, Store 14 (55::int)) = Load (5 + int off) \<or>
       (\<exists>v. snd (2::nat, Store 14 (55::int)) = Store (10 + int off) v))"
    by blast
  from t have "dram (kernel_post 0 5 10 5 2 2 dev2) = replay (new_events dev2 (kernel_post 0 5 10 5 2 2 dev2)) (dram dev2)"
    by blast
  then have m: "dram (kernel_post 0 5 10 5 2 2 dev2) 14 = 55"
    by (simp add: ev)
  from k b ev mem ex m show ?thesis by (intro conjI)
qed




text \<open>
  C5, as stated: in every execution each output index below \<open>N\<close> is written exactly once.
  For \<open>2^31 + 5\<close> elements no instance stores to output index \<open>2^31\<close>: the offsets are 32-bit
  and stop below \<open>2^31\<close>. With chunk size 3 the launch raises and nothing is written at
  all.
\<close>

theorem add_leaves_index_unwritten:
  "fst (add bigX bigY bigDev) = Inr bigOut \<and> 2147483648 < numel bigX \<and>
   filter (is_store_at (data_ptr bigOut + 2147483648))
     (new_events bigDev (snd (add bigX bigY bigDev))) = [] \<and>
   new_events dev2 (snd (add_with 3 tensA tensB dev2)) = []"
proof -
  have "2147483648 < numel bigX" by (simp add: bigX_def bigN_def)
  moreover have "filter (is_store_at (data_ptr bigOut + 2147483648))
     (new_events bigDev (snd (add bigX bigY bigDev))) = []"
    using big_unwritten_log by (simp add: bigOut_def)
  moreover have "new_events dev2 (snd (add_with 3 tensA tensB dev2)) = []"
    by (simp add: run_3 new_events_def)
  ultimately show ?thesis using big_fst by (intro conjI)
qed

text \<open>
  C5, amended: in a run of the add operation on \<open>N < 2^31\<close> elements with a chunk size \<open>P\<close>
  that is a power of two up to \<open>2^20\<close>, the log holds exactly one store to each output index
  \<open>i < N\<close>, made by the instance \<open>j\<close> with \<open>j * P \<le> i < j * P + P\<close>, and element \<open>i\<close> of the
  output holds the value stored; every store of instance \<open>j\<close> goes to an output index
  \<open>i < N\<close> of its own block; and the memory after the run is the memory before it with the
  logged stores applied. So the instances write disjoint regions that together cover
  \<open>[0, N)\<close>. (\<open>add\<close> is \<open>add_with 1024\<close>.)
\<close>

theorem each_index_written_once:
  assumes "is_cuda x" "is_cuda y" "P = 2 ^ k" "k \<le> 20" "numel x < 2147483648"
  shows "\<exists>out. fst (add_with P x y d) = Inr out \<and> numel out = numel x \<and>
     dram (snd (add_with P x y d)) = replay (new_events d (snd (add_with P x y d))) (dram d) \<and>
     (\<forall>i<numel x. \<exists>j v. j * P \<le> i \<and> i < j * P + P \<and>
         filter (is_store_at (data_ptr out + int i)) (new_events d (snd (add_with P x y d))) =
           [(j, Store (data_ptr out + int i) v)] \<and>
         contents (snd (add_with P x y d)) out ! i = v) \<and>
     (\<forall>e \<in> set (new_events d (snd (add_with P x y d))). \<forall>p v. snd e = Store p v \<longrightarrow>
         (\<exists>i<numel x. p = data_ptr out + int i \<and> fst e * P \<le> i \<and> i < fst e * P + P))"
proof -
  let ?g = "(numel x + P - 1) div P"
  let ?d1 = "d\<lparr>brk := brk d + int (numel x)\<rparr>"
  let ?post = "\<lambda>pids. launch_post (data_ptr x) (data_ptr y) (brk d) (numel x) P pids ?d1"
  let ?out = "fst (empty_like x d)"
  let ?evs = "new_events d (snd (add_with P x y d))"
  have P: "0 < P" using assms(3) by simp
  have b: "\<forall>p < ?g. p * P + P \<le> 2147483648"
    using grid_no_wrap [OF assms(3) _ assms(5)] assms(4) by simp
  have r: "add_with P x y d = (Inr ?out, ?post [0..<?g])"
    by (rule add_with_ok [OF assms(1-4)])
  have out: "data_ptr ?out = brk d" "numel ?out = numel x" by (simp_all add: empty_like_def)
  have evs: "?evs = concat (map (\<lambda>pid. instance_events (data_ptr x) (data_ptr y) (brk d) (numel x) P pid
                     (?post [0..<pid])) [0..<?g])"
    unfolding r snd_conv by (rule new_events_launch_post)
  have mem: "dram (snd (add_with P x y d)) = replay ?evs (dram d)"
    using dram_launch_post_replay [of "data_ptr x" "data_ptr y" "brk d" "numel x" P "[0..<?g]" ?d1]
    by (simp add: r new_events_def)
  have once: "\<exists>j v. j * P \<le> i \<and> i < j * P + P \<and>
         filter (is_store_at (data_ptr ?out + int i)) ?evs = [(j, Store (data_ptr ?out + int i) v)] \<and>
         contents (snd (add_with P x y d)) ?out ! i = v"
    if i: "i < numel x" for i
  proof -
    let ?v = "dram (?post [0..<i div P]) (data_ptr x + int i) +
              dram (?post [0..<i div P]) (data_ptr y + int i)"
    have 1: "i div P * P \<le> i" by simp
    have 2: "i < i div P * P + P" using P
      by (metis div_mult_mod_eq mod_less_divisor nat_add_left_cancel_less)
    have "filter (is_store_at (brk d + int i)) ?evs =
       (if i div P < ?g then [(i div P, Store (brk d + int i) ?v)] else [])"
      unfolding evs by (rule stores_of_launch [OF P i b])
    then have 3: "filter (is_store_at (brk d + int i)) ?evs = [(i div P, Store (brk d + int i) ?v)]"
      using cdiv_owner [OF P i] by simp
    have "contents (snd (add_with P x y d)) ?out ! i = dram (snd (add_with P x y d)) (data_ptr ?out + int i)"
      using i by (intro contents_nth contiguous_empty_like) (simp add: out)
    also have "\<dots> = ?v"
      unfolding mem out by (rule replay_single_store [OF 3])
    finally have 4: "contents (snd (add_with P x y d)) ?out ! i = ?v" .
    from 1 2 3 4 show ?thesis unfolding out by blast
  qed
  have only: "\<exists>i<numel x. p = data_ptr ?out + int i \<and> fst e * P \<le> i \<and> i < fst e * P + P"
    if e: "e \<in> set ?evs" and s: "snd e = Store p v" for e p v
  proof -
    from e obtain pid D where pid: "pid < ?g" and
      "e \<in> set (instance_events (data_ptr x) (data_ptr y) (brk d) (numel x) P pid D)"
      unfolding evs by auto
    from instance_events_cases [OF this(2)] b pid s show ?thesis unfolding out by auto
  qed
  have "fst (add_with P x y d) = Inr ?out" by (simp add: r)
  with out(2) mem once only show ?thesis by blast
qed

theorem each_index_written_once_witness:
  "is_cuda tensA \<and> is_cuda tensB \<and> (2::nat) = 2 ^ 1 \<and> (1::nat) \<le> 20 \<and>
   numel tensA < 2147483648 \<and> 4 < numel tensA \<and>
   (2, Store 14 55) \<in> set (new_events dev2 (snd (add_with 2 tensA tensB dev2))) \<and>
   (\<exists>out. fst (add_with 2 tensA tensB dev2) = Inr out \<and> numel out = numel tensA \<and>
      (\<exists>j v. j * 2 \<le> 4 \<and> 4 < j * 2 + 2 \<and>
         filter (is_store_at (data_ptr out + int 4)) (new_events dev2 (snd (add_with 2 tensA tensB dev2))) =
           [(j, Store (data_ptr out + int 4) v)] \<and>
         contents (snd (add_with 2 tensA tensB dev2)) out ! 4 = v) \<and>
      (\<exists>i<numel tensA. 14 = data_ptr out + int i \<and> 2 * 2 \<le> i \<and> i < 2 * 2 + 2))"
proof -
  have h: "is_cuda tensA" "is_cuda tensB" "(2::nat) = 2 ^ 1" "(1::nat) \<le> 20"
    "numel tensA < 2147483648"
    by (simp_all add: tens_ok)
  have i: "4 < numel tensA" by (simp add: tens_ok)
  have e: "(2, Store 14 55) \<in> set (new_events dev2 (snd (add_with 2 tensA tensB dev2)))"
    by (simp add: run_events)
  have s: "snd (2::nat, Store 14 (55::int)) = Store 14 55" by simp
  from each_index_written_once [OF h, of dev2] obtain out where
    out: "fst (add_with 2 tensA tensB dev2) = Inr out" "numel out = numel tensA"
    and once: "\<forall>i<numel tensA. \<exists>j v. j * 2 \<le> i \<and> i < j * 2 + 2 \<and>
         filter (is_store_at (data_ptr out + int i)) (new_events dev2 (snd (add_with 2 tensA tensB dev2))) =
           [(j, Store (data_ptr out + int i) v)] \<and>
         contents (snd (add_with 2 tensA tensB dev2)) out ! i = v"
    and only: "\<forall>e \<in> set (new_events dev2 (snd (add_with 2 tensA tensB dev2))). \<forall>p v.
         snd e = Store p v \<longrightarrow>
         (\<exists>i<numel tensA. p = data_ptr out + int i \<and> fst e * 2 \<le> i \<and> i < fst e * 2 + 2)"
    by blast
  from once i have "\<exists>j v. j * 2 \<le> 4 \<and> 4 < j * 2 + 2 \<and>
         filter (is_store_at (data_ptr out + int 4)) (new_events dev2 (snd (add_with 2 tensA tensB dev2))) =
           [(j, Store (data_ptr out + int 4) v)] \<and>
         contents (snd (add_with 2 tensA tensB dev2)) out ! 4 = v" by blast
  moreover from only e s have "\<exists>i<numel tensA. 14 = data_ptr out + int i \<and> 2 * 2 \<le> i \<and> i < 2 * 2 + 2"
    by fastforce
  ultimately show ?thesis using h i e out by blast
qed

text \<open>
  C6, as stated: two invocations with the same \<open>A\<close> and \<open>B\<close> give identical results.
  With \<open>A\<close> of five elements and \<open>B\<close> of three, which \<open>add\<close> accepts, the kernel reads two
  cells past the end of \<open>B\<close>; they are the first cells of the output block of the first call.
  The first call returns \<open>[101, 202, 303, 4, 5]\<close>, the second, on the same tensors holding
  the same values, \<open>[101, 202, 303, 105, 207]\<close>.
\<close>

theorem add_twice_differs:
  "result (add tensA tensC dev3) = Inr [101, 202, 303, 4, 5] \<and>
   contents (snd (add tensA tensC dev3)) tensA = contents dev3 tensA \<and>
   contents (snd (add tensA tensC dev3)) tensC = contents dev3 tensC \<and>
   result (add tensA tensC (snd (add tensA tensC dev3))) = Inr [101, 202, 303, 105, 207]"
proof -
  let ?d = "snd (add tensA tensC dev3)"
  let ?out = "\<lambda>q. \<lparr>data_ptr = q, numel = 5, stride = 1, is_cuda = True\<rparr>"
  have h: "is_cuda tensA" "is_cuda tensC" "numel tensA = 5"
    by (simp_all add: tensA_eq tensC_eq)
  have p: "(1024::nat) = 2 ^ 10" "(10::nat) \<le> 20" by simp_all
  have pa: "data_ptr tensA = 0" by (simp add: tensA_eq)
  have pc: "data_ptr tensC = 10" by (simp add: tensC_eq)
  have f: "fst (add tensA tensC d) = Inr (?out (brk d))" for d :: "int device"
    unfolding add_def add_with_ok [OF h(1,2) p]
    by (simp add: empty_like_def tensA_eq contiguous_def)
  have m1: "dram ?d a =
     (if 13 \<le> a \<and> a < 18 then dram dev3 (a - 13) + dram dev3 (10 + (a - 13)) else dram dev3 a)" for a
    unfolding add_5_dram [OF h(1,2,3)] brk_dev3 pa pc by simp
  have b: "brk ?d = 18" by (simp add: add_brk brk_dev3 tensA_eq)
  have m2: "dram (snd (add tensA tensC ?d)) a =
     (if 18 \<le> a \<and> a < 23 then dram ?d (a - 18) + dram ?d (10 + (a - 18)) else dram ?d a)" for a
    unfolding add_5_dram [OF h(1,2,3), of ?d] b pa pc by simp
  have u: "[0..<5] = [0, 1, 2, 3, 4]" by (simp add: upt_rec)
  have c1: "contents ?d (?out 13) = [101, 202, 303, 4, 5]"
    by (simp add: contents_def u m1 dram_dev3 dram_dev2)
  have c2: "contents (snd (add tensA tensC ?d)) (?out 18) = [101, 202, 303, 105, 207]"
    by (simp add: contents_def u m2 m1 dram_dev3 dram_dev2)
  have a: "allocated dev3 tensA" "allocated dev3 tensC" "numel tensA < 2147483648"
    by (simp_all add: allocated_def extent_def tensA_eq tensC_eq brk_dev3)
  have "result (add tensA tensC dev3) = Inr [101, 202, 303, 4, 5]"
    using f [of dev3] c1 by (simp add: result_def brk_dev3)
  moreover have "result (add tensA tensC ?d) = Inr [101, 202, 303, 105, 207]"
    using f [of ?d] c2 by (simp add: result_def b)
  moreover have "contents ?d tensA = contents dev3 tensA" by (rule add_contents [OF a(3,1)])
  moreover have "contents ?d tensC = contents dev3 tensC" by (rule add_contents [OF a(3,2)])
  ultimately show ?thesis by (intro conjI)
qed

text \<open>
  C6, amended: the add operation is deterministic on contiguous, allocated tensors of fewer
  than \<open>2^31\<close> elements when \<open>B\<close> is at least as long as \<open>A\<close>: two calls whose tensors hold
  the same values (and have the same residency) give the same result, whatever the two
  device states are otherwise (other memory contents, addresses, allocation frontier, log).
  In particular a second call on the same tensors, made after the first, gives the result of
  the first.
\<close>

theorem add_deterministic:
  assumes "contents d1 x1 = contents d2 x2" "contents d1 y1 = contents d2 y2"
    "is_cuda x1 = is_cuda x2" "is_cuda y1 = is_cuda y2"
    "allocated d1 x1" "allocated d1 y1" "allocated d2 x2" "allocated d2 y2"
    "contiguous x1" "contiguous y1" "contiguous x2" "contiguous y2"
    "numel x1 \<le> numel y1" "numel x1 < 2147483648"
  shows "result (add x1 y1 d1) = result (add x2 y2 d2) \<and>
         result (add x1 y1 (snd (add x1 y1 d1))) = result (add x1 y1 d1)"
proof
  have p: "(1024::nat) = 2 ^ 10" "(10::nat) \<le> 20" by simp_all
  show "result (add x1 y1 d1) = result (add x2 y2 d2)"
    unfolding add_def by (rule result_add_with_cong [OF assms p p])
  let ?d = "snd (add x1 y1 d1)"
  have "result (add_with 1024 x1 y1 ?d) = result (add_with 1024 x1 y1 d1)"
    using assms(5,6,9,10,13,14)
    by (intro result_add_with_cong [OF _ _ _ _ _ _ _ _ _ _ _ _ _ _ p p])
       (simp_all add: add_contents add_allocated)
  then show "result (add x1 y1 (snd (add x1 y1 d1))) = result (add x1 y1 d1)"
    by (simp add: add_def)
qed

theorem add_deterministic_witness:
  "contents dev2 tensA = contents dev3 tensA \<and> contents dev2 tensB = contents dev3 tensB \<and>
   is_cuda tensA = is_cuda tensA \<and> is_cuda tensB = is_cuda tensB \<and>
   allocated dev2 tensA \<and> allocated dev2 tensB \<and> allocated dev3 tensA \<and> allocated dev3 tensB \<and>
   contiguous tensA \<and> contiguous tensB \<and>
   numel tensA \<le> numel tensB \<and> numel tensA < 2147483648 \<and>
   result (add tensA tensB dev2) = result (add tensA tensB dev3) \<and>
   result (add tensA tensB (snd (add tensA tensB dev2))) = result (add tensA tensB dev2)"
proof -
  have c: "contents dev2 tensA = contents dev3 tensA" "contents dev2 tensB = contents dev3 tensB"
    by (simp_all add: contents_tensA contents_tensB contents_dev3_tensA contents_dev3_tensB)
  have h: "is_cuda tensA = is_cuda tensA" "is_cuda tensB = is_cuda tensB"
    "allocated dev2 tensA" "allocated dev2 tensB" "allocated dev3 tensA" "allocated dev3 tensB"
    "contiguous tensA" "contiguous tensB" "contiguous tensA" "contiguous tensB"
    "numel tensA \<le> numel tensB" "numel tensA < 2147483648"
    by (simp_all add: allocated_def extent_def contiguous_def tensA_eq tensB_eq brk_dev2 brk_dev3)
  from add_deterministic [OF c h] c h show ?thesis by simp
qed

text \<open>
  C7. For an empty \<open>x\<close> (\<open>N = 0\<close>) the grid is \<open>cdiv 0 P = 0\<close>: no kernel instance runs, nothing
  is logged, the device state is unchanged and the call returns the empty vector without
  error. This holds for every positive block size and for \<open>add\<close> itself.
\<close>

theorem add_empty:
  assumes "numel x = 0" "is_cuda x" "is_cuda y" "0 < P"
  shows "cdiv (numel x) P = Inr 0 \<and>
         result (add_with P x y d) = Inr [] \<and> snd (add_with P x y d) = d \<and>
         new_events d (snd (add_with P x y d)) = [] \<and>
         cdiv (numel x) 1024 = Inr 0 \<and>
         result (add x y d) = Inr [] \<and> snd (add x y d) = d \<and>
         new_events d (snd (add x y d)) = []"
proof -
  have "cdiv (numel x) Q = Inr 0 \<and>
         result (add_with Q x y d) = Inr [] \<and> snd (add_with Q x y d) = d \<and>
         new_events d (snd (add_with Q x y d)) = []" if "0 < Q" for Q
    using that assms(1)
    by (simp add: add_with_empty [OF assms(1-3) that] cdiv_def result_def contents_def
        empty_like_def new_events_def)
  from this [OF assms(4)] this [of 1024] show ?thesis by (simp add: add_def new_events_def)
qed

theorem add_empty_witness:
  "numel \<lparr>data_ptr = 10, numel = 0, stride = 1, is_cuda = True\<rparr> = 0 \<and>
   is_cuda \<lparr>data_ptr = 10, numel = 0, stride = 1, is_cuda = True\<rparr> \<and> (0::nat) < 2 \<and>
   result (add \<lparr>data_ptr = 10, numel = 0, stride = 1, is_cuda = True\<rparr>
               \<lparr>data_ptr = 10, numel = 0, stride = 1, is_cuda = True\<rparr> dev2) = (Inr [] :: error + int list) \<and>
   new_events dev2 (snd (add \<lparr>data_ptr = 10, numel = 0, stride = 1, is_cuda = True\<rparr>
               \<lparr>data_ptr = 10, numel = 0, stride = 1, is_cuda = True\<rparr> dev2)) = []"
proof -
  have h: "numel \<lparr>data_ptr = 10, numel = 0, stride = 1, is_cuda = True\<rparr> = 0"
    "is_cuda \<lparr>data_ptr = 10, numel = 0, stride = 1, is_cuda = True\<rparr>"
    "is_cuda \<lparr>data_ptr = 10, numel = 0, stride = 1, is_cuda = True\<rparr>" "(0::nat) < 2"
    by simp_all
  from add_empty [OF h, of dev2] h show ?thesis by blast
qed

text \<open>
  C8. For \<open>A = [1,2,3,4,5]\<close>, \<open>B = [10,20,30,40,50]\<close> and block size 2, the grid has three
  instances; their unmasked offsets are \<open>[0,2)\<close>, \<open>[2,4)\<close> and \<open>[4,5)\<close> (the last block has
  one valid element), as the log of the run shows, and the result is \<open>[11,22,33,44,55]\<close>.
\<close>

theorem concrete_scenario:
  "contents dev2 tensA = [1, 2, 3, 4, 5] \<and> contents dev2 tensB = [10, 20, 30, 40, 50] \<and>
   cdiv (numel tensA) 2 = Inr 3 \<and>
   map (lanes (numel tensA) 2) [0, 1, 2] = [[0, 1], [2, 3], [4]] \<and>
   new_events dev2 (snd (add_with 2 tensA tensB dev2)) =
     [(0, Load 0), (0, Load 1), (0, Load 5), (0, Load 6), (0, Store 10 11), (0, Store 11 22),
      (1, Load 2), (1, Load 3), (1, Load 7), (1, Load 8), (1, Store 12 33), (1, Store 13 44),
      (2, Load 4), (2, Load 9), (2, Store 14 55)] \<and>
   result (add_with 2 tensA tensB dev2) = Inr [11, 22, 33, 44, 55]"
proof -
  have n: "numel tensA = 5" by (simp add: tensA_eq)
  have grid: "cdiv (numel tensA) 2 = Inr 3" by (simp add: n cdiv_def)
  have chunks: "map (lanes (numel tensA) 2) [0, 1, 2] = [[0, 1], [2, 3], [4]]"
    by (simp add: n lanes_upt upt_rec)
  from contents_tensA contents_tensB grid chunks run_events run_result show ?thesis
    by (intro conjI)
qed

text \<open>
  C9, as stated: the add operation never modifies its inputs. For tensors of \<open>2^31 + 5\<close>
  elements the offsets of instance \<open>2^21\<close> wrap to \<open>-2^31\<close>, and its stores land \<open>2^31\<close> cells
  below the output block, in the cells of \<open>y\<close>: element 5 of \<open>y\<close> is 1 before the call and 2
  after it.
\<close>

theorem add_overwrites_input:
  "allocated bigDev bigX \<and> allocated bigDev bigY \<and> is_cuda bigX \<and> is_cuda bigY \<and>
   numel bigY = numel bigX \<and> fst (add bigX bigY bigDev) = Inr bigOut \<and>
   contents bigDev bigY ! 5 = 1 \<and>
   contents (snd (add bigX bigY bigDev)) bigY ! 5 = 2"
proof -
  have c: "contents d bigY ! 5 = dram d (int bigN + 5)" for d :: "int device"
    using contents_nth [of bigY 5 d] by (simp add: bigY_def contiguous_def bigN_def)
  have "allocated bigDev bigX" "allocated bigDev bigY" "is_cuda bigX" "is_cuda bigY"
    "numel bigY = numel bigX"
    by (simp_all add: allocated_def extent_def bigX_def bigY_def bigDev_def bigN_def)
  moreover have "contents bigDev bigY ! 5 = 1" unfolding c by (simp add: bigDev_def)
  moreover have "contents (snd (add bigX bigY bigDev)) bigY ! 5 = 2"
    unfolding c by (rule big_overwrites)
  ultimately show ?thesis using big_fst by (intro conjI)
qed

text \<open>
  C9, amended: when \<open>x\<close> has fewer than \<open>2^31\<close> elements the add operation does not modify
  its inputs: after the call (whether it returns a tensor or fails), \<open>x\<close> and \<open>y\<close> hold the
  values they held before, every cell outside the freshly allocated output block is
  unchanged, and every store in the log goes to a cell of that block.
\<close>

theorem add_leaves_inputs_unchanged:
  assumes "allocated d x" "allocated d y" "numel x < 2147483648"
  shows "contents (snd (add x y d)) x = contents d x \<and>
         contents (snd (add x y d)) y = contents d y \<and>
         (\<forall>a. \<not> (brk d \<le> a \<and> a < brk d + int (numel x)) \<longrightarrow> dram (snd (add x y d)) a = dram d a) \<and>
         (\<forall>e \<in> set (new_events d (snd (add x y d))). \<forall>p v. snd e = Store p v \<longrightarrow>
             brk d \<le> p \<and> p < brk d + int (numel x)) \<and>
         (\<forall>out. fst (add x y d) = Inr out \<longrightarrow> data_ptr out = brk d \<and> numel out = numel x)"
proof -
  have "fst (add x y d) = Inr out \<Longrightarrow> data_ptr out = brk d \<and> numel out = numel x" for out
    by (auto simp: add_def add_with_def empty_like_def cdiv_def Let_def
        split: if_splits sum.splits prod.splits option.splits)
  then show ?thesis
    using add_contents [OF assms(3,1)] add_contents [OF assms(3,2)]
      add_dram_outside [OF assms(3)] add_stores [OF assms(3)]
    by blast
qed

theorem add_leaves_inputs_unchanged_witness:
  "allocated dev2 tensA \<and> allocated dev2 tensB \<and> numel tensA < 2147483648 \<and>
   contents (snd (add tensA tensB dev2)) tensA = [1, 2, 3, 4, 5] \<and>
   contents (snd (add tensA tensB dev2)) tensB = [10, 20, 30, 40, 50] \<and>
   \<not> (brk dev2 \<le> 7 \<and> 7 < brk dev2 + int (numel tensA)) \<and>
   dram (snd (add tensA tensB dev2)) 7 = 30 \<and>
   (0, Store 10 11) \<in> set (new_events dev2 (snd (add tensA tensB dev2))) \<and>
   snd (0::nat, Store 10 (11::int)) = Store 10 11 \<and>
   brk dev2 \<le> 10 \<and> 10 < brk dev2 + int (numel tensA) \<and>
   fst (add tensA tensB dev2) = Inr \<lparr>data_ptr = 10, numel = 5, stride = 1, is_cuda = True\<rparr> \<and>
   data_ptr \<lparr>data_ptr = 10, numel = 5, stride = 1, is_cuda = True\<rparr> = brk dev2 \<and>
   numel \<lparr>data_ptr = 10, numel = 5, stride = 1, is_cuda = True\<rparr> = numel tensA"
proof -
  have h: "allocated dev2 tensA" "allocated dev2 tensB" "numel tensA < 2147483648"
    by (simp_all add: tens_ok)
  note t = add_leaves_inputs_unchanged [OF h]
  have out: "\<not> (brk dev2 \<le> 7 \<and> 7 < brk dev2 + int (numel tensA))" by (simp add: brk_dev2)
  from t have "contents (snd (add tensA tensB dev2)) tensA = [1, 2, 3, 4, 5]"
    "contents (snd (add tensA tensB dev2)) tensB = [10, 20, 30, 40, 50]"
    by (simp_all add: contents_tensA contents_tensB)
  moreover from t out have "dram (snd (add tensA tensB dev2)) 7 = dram dev2 7" by blast
  then have "dram (snd (add tensA tensB dev2)) 7 = 30" by (simp add: dram_dev2)
  moreover from t run1024_store have "brk dev2 \<le> 10 \<and> 10 < brk dev2 + int (numel tensA)"
    by fastforce
  moreover from t run1024_fst have
    "data_ptr \<lparr>data_ptr = 10, numel = 5, stride = 1, is_cuda = True\<rparr> = brk dev2 \<and>
     numel \<lparr>data_ptr = 10, numel = 5, stride = 1, is_cuda = True\<rparr> = numel tensA"
    by blast
  ultimately show ?thesis using h out run1024_store run1024_fst by simp
qed

text \<open>
  C10. \<open>add\<close> takes the element count from \<open>x\<close> alone: changing the length of \<open>y\<close> changes
  nothing of what \<open>add\<close> does. Its only check is residency: with \<open>x\<close> and \<open>y\<close> on the
  accelerator it returns a tensor of the length of \<open>x\<close> (no error, whatever the length of
  \<open>y\<close>), and otherwise the assertion fails.
\<close>

theorem add_length_from_first_argument:
  "add x (y\<lparr>numel := m\<rparr>) d = add x y d \<and>
   (is_cuda x \<and> is_cuda y \<longrightarrow>
      fst (add x y d) = Inr \<lparr>data_ptr = brk d, numel = numel x,
                             stride = (if contiguous x then stride x else 1), is_cuda = True\<rparr>) \<and>
   (\<not> (is_cuda x \<and> is_cuda y) \<longrightarrow> fst (add x y d) = Inl AssertionError)"
proof -
  have p: "(1024::nat) = 2 ^ 10" "(10::nat) \<le> 20" by simp_all
  have indep: "add x (y\<lparr>numel := m\<rparr>) d = add x y d"
    by (simp add: add_def add_with_def empty_like_def cdiv_def Let_def)
  have ok: "fst (add x y d) = Inr \<lparr>data_ptr = brk d, numel = numel x,
                             stride = (if contiguous x then stride x else 1), is_cuda = True\<rparr>"
    if "is_cuda x \<and> is_cuda y"
  proof -
    from that have c: "is_cuda x" "is_cuda y" by simp_all
    show ?thesis unfolding add_def add_with_ok [OF c p] by (simp add: empty_like_def c)
  qed
  have fail: "fst (add x y d) = Inl AssertionError" if "\<not> (is_cuda x \<and> is_cuda y)"
    using add_with_fail [OF that, of 1024 d] by (simp add: add_def)
  from indep ok fail show ?thesis by blast
qed

theorem add_length_from_first_argument_witness:
  "is_cuda tensC \<and> is_cuda tensA \<and> numel tensC \<noteq> numel tensA \<and>
   fst (add tensC tensA dev3) = Inr \<lparr>data_ptr = 13, numel = 3, stride = 1, is_cuda = True\<rparr> \<and>
   fst (add tensA tensC dev3) = Inr \<lparr>data_ptr = 13, numel = 5, stride = 1, is_cuda = True\<rparr> \<and>
   \<not> (is_cuda (tensA\<lparr>is_cuda := False\<rparr>) \<and> is_cuda tensC) \<and>
   fst (add (tensA\<lparr>is_cuda := False\<rparr>) tensC dev3) = Inl AssertionError"
proof -
  have h: "is_cuda tensC \<and> is_cuda tensA" "numel tensC \<noteq> numel tensA"
    "\<not> (is_cuda (tensA\<lparr>is_cuda := False\<rparr>) \<and> is_cuda tensC)"
    by (simp_all add: tensA_eq tensC_eq)
  from add_length_from_first_argument [where x = tensC and y = tensA and d = dev3] h(1)
  have 1: "fst (add tensC tensA dev3) = Inr \<lparr>data_ptr = 13, numel = 3, stride = 1, is_cuda = True\<rparr>"
    by (simp add: brk_dev3 tensC_eq contiguous_def)
  from add_length_from_first_argument [where x = tensA and y = tensC and d = dev3] h(1)
  have 2: "fst (add tensA tensC dev3) = Inr \<lparr>data_ptr = 13, numel = 5, stride = 1, is_cuda = True\<rparr>"
    by (simp add: brk_dev3 tensA_eq contiguous_def)
  from add_length_from_first_argument [where x = "tensA\<lparr>is_cuda := False\<rparr>" and y = tensC and d = dev3] h(3)
  have 3: "fst (add (tensA\<lparr>is_cuda := False\<rparr>) tensC dev3) = Inl AssertionError"
    by blast
  from h 1 2 3 show ?thesis by blast
qed

end
